theory Spec2Isabelle
  imports Main
begin

section \<open>Tricksy Battle: a shallow embedding of tricksy\_battle.py\<close>

text \<open>
  The program is a two-player trick-taking card game played on the terminal. Python
  exceptions are values of the type \<open>error\<close>; a call that may raise returns
  \<open>error + 'a\<close>, with \<open>Inl\<close> for the exception. Python's unbounded integers
  are \<open>int\<close>. Strings are \<open>string\<close>; the text typed by the players is taken to
  be ASCII.
\<close>

datatype error = KeyError | IndexError | ValueError | EOFError

subsection \<open>class Card\<close>

definition SUITS :: "string list" where
  "SUITS = [''Hearts'', ''Diamonds'', ''Clubs'', ''Spades'']"

definition RANKS :: "string list" where
  "RANKS = [''2'', ''3'', ''4'', ''5'', ''6''] @ [''7'', ''8'', ''9'', ''10'']
             @ [''Jack'', ''Queen'', ''Ace'']"

text \<open>
  \<^verbatim>\<open>VALUE_MAP = {rank: i+2 for i, rank in enumerate(RANKS)}\<close>: the dictionary is
  filled from left to right, a later entry overwriting an earlier one with the same key.
\<close>

definition VALUE_MAP :: "string \<rightharpoonup> int" where
  "VALUE_MAP = foldl (\<lambda>m (i, rank). m(rank \<mapsto> int i + 2)) Map.empty (enumerate 0 RANKS)"

record card =
  suit :: string
  rank :: string
  cvalue :: int

text \<open>
  \<^verbatim>\<open>Card.__init__\<close>: the lookup \<^verbatim>\<open>Card.VALUE_MAP[rank]\<close> raises KeyError for
  a rank that is not one of the twelve. The field \<^verbatim>\<open>value\<close> is called
  \<open>cvalue\<close> here.
\<close>

definition Card_init :: "string \<Rightarrow> string \<Rightarrow> error + card" where
  "Card_init s r =
     (case VALUE_MAP r of
        None \<Rightarrow> Inl KeyError
      | Some v \<Rightarrow> Inr \<lparr>suit = s, rank = r, cvalue = v\<rparr>)"

text \<open>\<^verbatim>\<open>Card.__str__\<close>, for example "Queen of Hearts".\<close>

definition Card_str :: "card \<Rightarrow> string" where
  "Card_str c = rank c @ '' of '' @ suit c"

subsection \<open>Trick resolution and the early end\<close>

text \<open>
  \<^verbatim>\<open>determine_winner(lead_player, lead_card, follow_player, follow_card)\<close> returns
  one of the two players it is given.
\<close>

definition determine_winner :: "'p \<Rightarrow> card \<Rightarrow> 'p \<Rightarrow> card \<Rightarrow> 'p" where
  "determine_winner lead_player lead_card follow_player follow_card =
     (if suit follow_card = suit lead_card
      then (if cvalue follow_card > cvalue lead_card then follow_player else lead_player)
      else lead_player)"

definition early_termination :: "int \<Rightarrow> int \<Rightarrow> bool" where
  "early_termination score1 score2 =
     ((score1 \<ge> 9 \<and> score2 \<ge> 1) \<or> (score2 \<ge> 9 \<and> score1 \<ge> 1))"

subsection \<open>Python helpers\<close>

text \<open>
  A chain of calls that may raise: the first exception ends the chain.
\<close>

definition bind_e :: "error + 'a \<Rightarrow> ('a \<Rightarrow> error + 'b) \<Rightarrow> error + 'b" where
  "bind_e m f = (case m of Inl e \<Rightarrow> Inl e | Inr x \<Rightarrow> f x)"

text \<open>
  A call that may also run forever returns \<open>(error + 'a) option\<close>: \<open>None\<close> when it
  never returns, \<open>Some (Inl e)\<close> when it raises \<open>e\<close>, \<open>Some (Inr x)\<close> when it
  returns \<open>x\<close>. A chain of such calls stops at the first one that does not return.
\<close>

type_synonym 'a result = "(error + 'a) option"

definition bind_r :: "'a result \<Rightarrow> ('a \<Rightarrow> 'b result) \<Rightarrow> 'b result" where
  "bind_r m f = (case m of None \<Rightarrow> None | Some (Inl e) \<Rightarrow> Some (Inl e) | Some (Inr x) \<Rightarrow> f x)"

text \<open>\<^verbatim>\<open>d[k]\<close> on a dictionary raises KeyError for a missing key.\<close>

definition getitem :: "('k \<rightharpoonup> 'v) \<Rightarrow> 'k \<Rightarrow> error + 'v" where
  "getitem d k = (case d k of None \<Rightarrow> Inl KeyError | Some v \<Rightarrow> Inr v)"

text \<open>
  \<^verbatim>\<open>list.remove(x)\<close> deletes the first element equal to \<open>x\<close> and raises
  ValueError when there is none. Card defines no \<^verbatim>\<open>__eq__\<close>, so Python compares
  cards by identity; the cards of a game are pairwise different (suit, rank) pairs, on
  which identity and structural equality agree.
\<close>

definition list_remove :: "'a list \<Rightarrow> 'a \<Rightarrow> error + 'a list" where
  "list_remove xs x = (if x \<in> set xs then Inr (remove1 x xs) else Inl ValueError)"

text \<open>\<^verbatim>\<open>str(n)\<close> for an integer, in decimal.\<close>

fun str_nat :: "nat \<Rightarrow> string" where
  "str_nat n =
     (if n < 10 then [''0123456789'' ! n]
      else str_nat (n div 10) @ [''0123456789'' ! (n mod 10)])"

definition str_int :: "int \<Rightarrow> string" where
  "str_int i = (if i < 0 then ''-'' @ str_nat (nat (- i)) else str_nat (nat i))"

text \<open>\<^verbatim>\<open>sep.join(xs)\<close>.\<close>

fun join :: "string \<Rightarrow> string list \<Rightarrow> string" where
  "join sep [] = []"
| "join sep [x] = x"
| "join sep (x # y # ys) = x @ sep @ join sep (y # ys)"

text \<open>
  \<^verbatim>\<open>str.isdigit()\<close> and \<^verbatim>\<open>int(s)\<close> on ASCII text: a non-empty run of the
  characters 0 to 9, read in base ten.
\<close>

definition digit_char :: "char \<Rightarrow> bool" where
  "digit_char c = (c \<in> set ''0123456789'')"

definition isdigit :: "string \<Rightarrow> bool" where
  "isdigit s = (s \<noteq> [] \<and> list_all digit_char s)"

definition int_of_str :: "string \<Rightarrow> int" where
  "int_of_str s = foldl (\<lambda>a c. 10 * a + (of_char c - 48)) 0 s"

text \<open>\<^verbatim>\<open>str.strip()\<close>: ASCII white space is removed at both ends.\<close>

definition isspace :: "char \<Rightarrow> bool" where
  "isspace c = (let n = (of_char c :: nat) in (9 \<le> n \<and> n \<le> 13) \<or> (28 \<le> n \<and> n \<le> 32))"

definition strip :: "string \<Rightarrow> string" where
  "strip s = rev (dropWhile isspace (rev (dropWhile isspace s)))"

subsection \<open>The terminal\<close>

text \<open>
  The terminal is the sequence of lines that standard input still holds and the text
  written to standard output so far. Line \<open>n\<close> of the input is \<open>stdin t n\<close>, and
  \<open>None\<close> marks the end of the input; the sequence may have no end.
  \<^verbatim>\<open>print(s)\<close> writes \<open>s\<close> and a newline; \<^verbatim>\<open>input(prompt)\<close> writes the
  prompt and reads one line, raising EOFError at the end of the input.
\<close>

record io =
  stdin :: "nat \<Rightarrow> string option"
  stdout :: string

definition print :: "string \<Rightarrow> io \<Rightarrow> io" where
  "print s t = t\<lparr>stdout := stdout t @ s @ [CHR 0x0A]\<rparr>"

definition input :: "string \<Rightarrow> io \<Rightarrow> error + (string \<times> io)" where
  "input prompt t =
     (case stdin t 0 of
        None \<Rightarrow> Inl EOFError
      | Some l \<Rightarrow> Inr (l, t\<lparr>stdin := (\<lambda>n. stdin t (Suc n)), stdout := stdout t @ prompt\<rparr>))"

text \<open>A finite input: the lines of the list, then the end.\<close>

definition lines_of :: "string list \<Rightarrow> nat \<Rightarrow> string option" where
  "lines_of ls n = (if n < length ls then Some (ls ! n) else None)"

subsection \<open>class Deck\<close>

text \<open>
  \<^verbatim>\<open>Deck.__init__\<close>: the 48 cards, suit by suit, then \<^verbatim>\<open>random.shuffle\<close>,
  which is a parameter of the model.
\<close>

fun map_e :: "('a \<Rightarrow> error + 'b) \<Rightarrow> 'a list \<Rightarrow> error + 'b list" where
  "map_e f [] = Inr []"
| "map_e f (x # xs) = bind_e (f x) (\<lambda>y. bind_e (map_e f xs) (\<lambda>ys. Inr (y # ys)))"

definition Deck_init :: "(card list \<Rightarrow> card list) \<Rightarrow> error + card list" where
  "Deck_init shuffle =
     bind_e (map_e (\<lambda>(s, r). Card_init s r) (concat (map (\<lambda>s. map (\<lambda>r. (s, r)) RANKS) SUITS)))
       (\<lambda>cards. Inr (shuffle cards))"

text \<open>
  \<^verbatim>\<open>Deck.deal(n)\<close> pops \<open>n\<close> times from the end of the list;
  \<^verbatim>\<open>list.pop()\<close> raises IndexError on an empty list. The result is the hand dealt
  and the cards left.
\<close>

fun deal :: "nat \<Rightarrow> card list \<Rightarrow> error + (card list \<times> card list)" where
  "deal 0 cards = Inr ([], cards)"
| "deal (Suc n) cards =
     (if cards = [] then Inl IndexError
      else bind_e (deal n (butlast cards)) (\<lambda>(dealt, rest). Inr (last cards # dealt, rest)))"

text \<open>\<^verbatim>\<open>Deck.draw()\<close>: the card drawn, or None, and the cards left.\<close>

definition draw :: "card list \<Rightarrow> card option \<times> card list" where
  "draw cards = (if cards \<noteq> [] then (Some (last cards), butlast cards) else (None, cards))"

subsection \<open>class Player and the choice of a card\<close>

record player =
  name :: string
  hand :: "card list"

definition print_choices :: "card list \<Rightarrow> io \<Rightarrow> io" where
  "print_choices valid_choices t =
     foldl (\<lambda>t (idx, c). print (''    '' @ str_int (int idx) @ '': '' @ Card_str c) t) t
       (enumerate 1 valid_choices)"

text \<open>
  \<^verbatim>\<open>prompt_card_choice\<close> asks again after every answer that is not the number of a
  choice, so it runs forever on an endless input without such an answer: its result is
  \<open>None\<close> then.
\<close>

partial_function (option) prompt_card_choice :: "player \<Rightarrow> card list \<Rightarrow> io \<Rightarrow> (card \<times> io) result"
where
  "prompt_card_choice pl valid_choices t =
     (case input (name pl @ '', choose a card (1-'' @ str_int (int (length valid_choices)) @ ''): '')
             (print_choices valid_choices t) of
        Inl e \<Rightarrow> Some (Inl e)
      | Inr (choice, t') \<Rightarrow>
          if isdigit choice \<and> 0 \<le> int_of_str choice - 1
               \<and> int_of_str choice - 1 < int (length valid_choices)
          then Some (Inr (valid_choices ! nat (int_of_str choice - 1), t'))
          else prompt_card_choice pl valid_choices (print ''Invalid selection; try again.'' t'))"

declare prompt_card_choice.simps [code]

definition get_lead_card :: "player \<Rightarrow> io \<Rightarrow> (card \<times> io) result" where
  "get_lead_card pl t =
     prompt_card_choice pl (hand pl)
       (print ([CHR 0x0A] @ name pl @ [CHR 0x27] @ ''s hand: ''
                 @ join '', '' (map Card_str (hand pl))) t)"

definition get_follow_card :: "player \<Rightarrow> string \<Rightarrow> io \<Rightarrow> (card \<times> io) result" where
  "get_follow_card pl lead_suit t =
     (let same_suit = filter (\<lambda>c. suit c = lead_suit) (hand pl) in
      if same_suit \<noteq> []
      then prompt_card_choice pl same_suit
             (print (name pl @ '', you must follow suit ('' @ lead_suit @ ''):'') t)
      else prompt_card_choice pl (hand pl)
             (print (name pl @ '', you have no '' @ lead_suit @ ''. Play any card: '') t))"

subsection \<open>The game: main\<close>

text \<open>
  The local variables of \<^verbatim>\<open>main\<close> are the fields of the state. \<^verbatim>\<open>leader\<close>,
  \<^verbatim>\<open>follower\<close> and \<^verbatim>\<open>winner\<close> are references to one of the two Player
  objects: a \<open>pid\<close>. The dictionary \<^verbatim>\<open>score\<close> is keyed by the players' names.
\<close>

datatype pid = P1 | P2

record game =
  p1 :: player
  p2 :: player
  deck :: "card list"
  score :: "string \<rightharpoonup> int"
  leader :: pid
  follower :: pid
  deals_done :: int
  round_num :: int
  tty :: io

definition player_of :: "game \<Rightarrow> pid \<Rightarrow> player" where
  "player_of g p = (case p of P1 \<Rightarrow> p1 g | P2 \<Rightarrow> p2 g)"

definition set_hand :: "pid \<Rightarrow> card list \<Rightarrow> game \<Rightarrow> game" where
  "set_hand p h g =
     (case p of
        P1 \<Rightarrow> g\<lparr>p1 := (p1 g)\<lparr>hand := h\<rparr>\<rparr>
      | P2 \<Rightarrow> g\<lparr>p2 := (p2 g)\<lparr>hand := h\<rparr>\<rparr>)"

text \<open>The UTF-8 bytes of the arrow U+2192 in the score lines.\<close>

definition arrow :: string where
  "arrow = [CHR 0xE2, CHR 0x86, CHR 0x92]"

text \<open>
  Lines 100 to 118: the set-up. \<^verbatim>\<open>random.shuffle\<close> and the outcome of
  \<^verbatim>\<open>random.choice([True, False])\<close> are parameters.
\<close>

definition game_setup :: "(card list \<Rightarrow> card list) \<Rightarrow> bool \<Rightarrow> io \<Rightarrow> error + game" where
  "game_setup shuffle coin t0 =
     (let t1 = print (''Welcome to Tricksy Battle!'' @ [CHR 0x0A]) t0 in
      bind_e (input ''Enter name for Player 1: '' t1) (\<lambda>(l1, t2).
      bind_e (input ''Enter name for Player 2: '' t2) (\<lambda>(l2, t3).
      let name1 = (if strip l1 \<noteq> [] then strip l1 else ''Player 1'');
          name2 = (if strip l2 \<noteq> [] then strip l2 else ''Player 2'')
      in
      bind_e (Deck_init shuffle) (\<lambda>d0.
      bind_e (deal 8 d0) (\<lambda>(h1, d1).
      bind_e (deal 8 d1) (\<lambda>(h2, d2).
      let sc = (Map.empty(name1 \<mapsto> 0))(name2 \<mapsto> 0);
          ld = (if coin then P1 else P2);
          fl = (if coin then P2 else P1);
          t4 = print ([CHR 0x0A] @ (if coin then name1 else name2)
                        @ '' will lead the first trick.'' @ [CHR 0x0A]) t3
      in Inr \<lparr>p1 = \<lparr>name = name1, hand = h1\<rparr>, p2 = \<lparr>name = name2, hand = h2\<rparr>,
               deck = d2, score = sc, leader = ld, follower = fl,
               deals_done = 0, round_num = 0, tty = t4\<rparr>))))))"

text \<open>Lines 122 to 141: both cards are played, the trick is scored, the winner leads next.\<close>

definition play_cards :: "game \<Rightarrow> game result" where
  "play_cards g0 =
     (let g1 = g0\<lparr>round_num := round_num g0 + 1\<rparr>;
          g2 = g1\<lparr>tty := print (''--- Round '' @ str_int (round_num g1) @ '' ---'') (tty g1)\<rparr>;
          ld = leader g2;
          fl = follower g2
      in
      bind_r (get_lead_card (player_of g2 ld) (tty g2)) (\<lambda>(lead_card, t1).
      bind_r (Some (list_remove (hand (player_of g2 ld)) lead_card)) (\<lambda>h.
      let g3 = set_hand ld h (g2\<lparr>tty := t1\<rparr>);
          g4 = g3\<lparr>tty := print (name (player_of g3 ld) @ '' leads: '' @ Card_str lead_card)
                              (tty g3)\<rparr>
      in
      bind_r (get_follow_card (player_of g4 fl) (suit lead_card) (tty g4)) (\<lambda>(follow_card, t2).
      bind_r (Some (list_remove (hand (player_of g4 fl)) follow_card)) (\<lambda>h'.
      let g5 = set_hand fl h' (g4\<lparr>tty := t2\<rparr>);
          g6 = g5\<lparr>tty := print (name (player_of g5 fl) @ '' plays: '' @ Card_str follow_card)
                              (tty g5)\<rparr>;
          winner = determine_winner ld lead_card fl follow_card;
          g7 = g6\<lparr>tty := print (name (player_of g6 winner) @ '' wins the trick!'' @ [CHR 0x0A])
                              (tty g6)\<rparr>
      in
      bind_r (Some (getitem (score g7) (name (player_of g7 winner)))) (\<lambda>s.
      let g8 = g7\<lparr>score := (score g7)(name (player_of g7 winner) \<mapsto> s + 1)\<rparr>
      in Some (Inr (g8\<lparr>leader := winner, follower := (if winner = P2 then P1 else P2)\<rparr>))))))))"

text \<open>Lines 143 to 146: one card is revealed from the deck, when there is one.\<close>

definition reveal :: "game \<Rightarrow> game" where
  "reveal g =
     (case draw (deck g) of
        (None, d) \<Rightarrow> g\<lparr>deck := d\<rparr>
      | (Some c, d) \<Rightarrow> g\<lparr>deck := d, tty := print (''Revealed from deck: '' @ Card_str c) (tty g)\<rparr>)"

text \<open>Lines 148 to 153: four more cards for each player, when both hands are down to four.\<close>

definition redeal :: "game \<Rightarrow> error + game" where
  "redeal g =
     (if length (hand (p1 g)) = 4 \<and> length (hand (p2 g)) = 4 \<and> deals_done g < 2
      then
        (let g1 = g\<lparr>tty := print ([CHR 0x0A] @ ''Dealing 4 new cards to each player...''
                                     @ [CHR 0x0A]) (tty g)\<rparr>
         in
         bind_e (deal 4 (deck g1)) (\<lambda>(c1, d1).
         let g2 = g1\<lparr>deck := d1, p1 := (p1 g1)\<lparr>hand := hand (p1 g1) @ c1\<rparr>\<rparr>
         in
         bind_e (deal 4 (deck g2)) (\<lambda>(c2, d2).
         Inr (g2\<lparr>deck := d2, p2 := (p2 g2)\<lparr>hand := hand (p2 g2) @ c2\<rparr>,
                  deals_done := deals_done g2 + 1\<rparr>))))
      else Inr g)"

text \<open>Lines 155 and 156: the running score.\<close>

definition show_score :: "game \<Rightarrow> error + game" where
  "show_score g =
     bind_e (getitem (score g) (name (p1 g))) (\<lambda>s1.
     bind_e (getitem (score g) (name (p2 g))) (\<lambda>s2.
     Inr (g\<lparr>tty := print (''Score '' @ arrow @ '' '' @ name (p1 g) @ '': '' @ str_int s1
                            @ '' | '' @ name (p2 g) @ '': '' @ str_int s2 @ [CHR 0x0A])
                     (tty g)\<rparr>)))"

text \<open>Lines 122 to 156: the body of the loop, one round.\<close>

definition play_round :: "game \<Rightarrow> game result" where
  "play_round g =
     bind_r (play_cards g) (\<lambda>g'. Some (bind_e (redeal (reveal g')) show_score))"

text \<open>
  Line 121: the test of the loop. The scores are read only while fewer than 16 rounds have
  been played, since \<^verbatim>\<open>and\<close> evaluates its second operand only then.
\<close>

definition loop_cond :: "game \<Rightarrow> error + bool" where
  "loop_cond g =
     (if round_num g < 16
      then bind_e (getitem (score g) (name (p1 g))) (\<lambda>s1.
           bind_e (getitem (score g) (name (p2 g))) (\<lambda>s2.
           Inr (\<not> early_termination s1 s2)))
      else Inr False)"

lemma bind_e_Inr: "bind_e m f = Inr y \<longleftrightarrow> (\<exists>x. m = Inr x \<and> f x = Inr y)"
  by (cases m) (simp_all add: bind_e_def)

lemma bind_r_Inr: "bind_r m f = Some (Inr y) \<longleftrightarrow> (\<exists>x. m = Some (Inr x) \<and> f x = Some (Inr y))"
  by (auto simp: bind_r_def split: option.splits sum.splits)

lemma bind_e_cong [fundef_cong]:
  "m = m' \<Longrightarrow> (\<And>x. m' = Inr x \<Longrightarrow> f x = f' x) \<Longrightarrow> bind_e m f = bind_e m' f'"
  by (auto simp: bind_e_def split: sum.splits)

lemma bind_r_cong [fundef_cong]:
  "m = m' \<Longrightarrow> (\<And>x. m' = Some (Inr x) \<Longrightarrow> f x = f' x) \<Longrightarrow> bind_r m f = bind_r m' f'"
  by (auto simp: bind_r_def split: option.splits sum.splits)

lemma set_hand_fields [simp]:
  "round_num (set_hand p h g) = round_num g"
  "deals_done (set_hand p h g) = deals_done g"
  "score (set_hand p h g) = score g"
  "deck (set_hand p h g) = deck g"
  "tty (set_hand p h g) = tty g"
  "leader (set_hand p h g) = leader g"
  "follower (set_hand p h g) = follower g"
  by (cases p; simp add: set_hand_def)+

lemma play_cards_round_num: "play_cards g = Some (Inr g') \<Longrightarrow> round_num g' = round_num g + 1"
  by (auto simp: play_cards_def Let_def bind_r_Inr)

lemma reveal_round_num [simp]: "round_num (reveal g) = round_num g"
  by (simp add: reveal_def split: prod.splits option.splits)

lemma redeal_round_num: "redeal g = Inr g' \<Longrightarrow> round_num g' = round_num g"
  by (auto simp: redeal_def Let_def bind_e_Inr split: if_splits)

lemma show_score_round_num: "show_score g = Inr g' \<Longrightarrow> round_num g' = round_num g"
  by (auto simp: show_score_def bind_e_Inr)

lemma play_round_round_num: "play_round g = Some (Inr g') \<Longrightarrow> round_num g' = round_num g + 1"
  by (auto simp: play_round_def bind_r_Inr bind_e_Inr
           dest!: play_cards_round_num redeal_round_num show_score_round_num)

lemma loop_cond_True: "loop_cond g = Inr True \<Longrightarrow> round_num g < 16"
  by (auto simp: loop_cond_def split: if_splits)

text \<open>
  Lines 121 to 156: the loop. Each round adds one to \<^verbatim>\<open>round_num\<close> and a round
  starts only below 16, which is the measure of the recursion; a round in which a player
  is asked forever does not return, and neither does the loop then.
\<close>

function game_loop :: "game \<Rightarrow> game result" where
  "game_loop g =
     bind_r (Some (loop_cond g)) (\<lambda>continue.
       if continue then bind_r (play_round g) game_loop else Some (Inr g))"
  by pat_completeness auto
termination
  by (relation "measure (\<lambda>g. nat (16 - round_num g))")
     (auto dest: play_round_round_num loop_cond_True)

declare game_loop.simps [simp del]

text \<open>
  The states in which the test of the loop is evaluated, in order: the state before the
  first round, then the state after each completed round.
\<close>

function game_trace :: "game \<Rightarrow> game list" where
  "game_trace g =
     g # (if loop_cond g = Inr True
          then (case play_round g of Some (Inr g') \<Rightarrow> game_trace g' | _ \<Rightarrow> [])
          else [])"
  by pat_completeness auto
termination
  by (relation "measure (\<lambda>g. nat (16 - round_num g))")
     (auto dest: play_round_round_num loop_cond_True)

declare game_trace.simps [simp del]

text \<open>
  Lines 161 to 171: the last line of the summary. The source reads the two scores from the
  dictionary in each test; they are the values \<open>s1\<close> and \<open>s2\<close> read for the line
  before.
\<close>

definition verdict :: "string \<Rightarrow> string \<Rightarrow> int \<Rightarrow> int \<Rightarrow> string" where
  "verdict name1 name2 s1 s2 =
     (if s1 = 0 \<and> s2 = 16 then name1 @ '' shot the moon and wins 17-'' @ str_int s2 @ ''!''
      else if s2 = 0 \<and> s1 = 16 then name2 @ '' shot the moon and wins 17-'' @ str_int s1 @ ''!''
      else if s1 > s2 then name1 @ '' wins!''
      else if s2 > s1 then name2 @ '' wins!''
      else ''It'' @ [CHR 0x27] @ ''s a tie!'')"

text \<open>Lines 158 to 171: the summary.\<close>

definition game_over :: "game \<Rightarrow> error + game" where
  "game_over g =
     (let t1 = print ''=== GAME OVER ==='' (tty g) in
      bind_e (getitem (score g) (name (p1 g))) (\<lambda>s1.
      bind_e (getitem (score g) (name (p2 g))) (\<lambda>s2.
      let t2 = print (''Final Score '' @ arrow @ '' '' @ name (p1 g) @ '': '' @ str_int s1
                        @ '' | '' @ name (p2 g) @ '': '' @ str_int s2) t1
      in Inr (g\<lparr>tty := print (verdict (name (p1 g)) (name (p2 g)) s1 s2) t2\<rparr>))))"

definition main :: "(card list \<Rightarrow> card list) \<Rightarrow> bool \<Rightarrow> io \<Rightarrow> game result" where
  "main shuffle coin t =
     bind_r (Some (game_setup shuffle coin t)) (\<lambda>g.
     bind_r (game_loop g) (\<lambda>g'. Some (game_over g')))"

subsection \<open>Auxiliary notions\<close>

text \<open>
  The early-termination predicate on the scores of a state (false when a score is
  missing from the dictionary).
\<close>

definition early_end :: "game \<Rightarrow> bool" where
  "early_end g =
     (case (score g (name (p1 g)), score g (name (p2 g))) of
        (Some s1, Some s2) \<Rightarrow> early_termination s1 s2
      | _ \<Rightarrow> False)"

text \<open>
  \<open>returns m P\<close>: the call \<open>m\<close> ends, by raising or by returning, and a value it
  returns satisfies \<open>P\<close>.
\<close>

definition returns :: "'a result \<Rightarrow> ('a \<Rightarrow> bool) \<Rightarrow> bool" where
  "returns m P = (\<exists>r. m = Some r \<and> (\<forall>x. r = Inr x \<longrightarrow> P x))"

subsection \<open>Example states\<close>

text \<open>
  A game before its sixteenth round, with one card left in each hand and in the deck, and
  the state after that round.
\<close>

definition late_game :: game where
  "late_game =
     \<lparr>p1 = \<lparr>name = ''Ann'', hand = [\<lparr>suit = ''Clubs'', rank = ''9'', cvalue = 9\<rparr>]\<rparr>,
      p2 = \<lparr>name = ''Bob'', hand = [\<lparr>suit = ''Clubs'', rank = ''3'', cvalue = 3\<rparr>]\<rparr>,
      deck = [\<lparr>suit = ''Hearts'', rank = ''2'', cvalue = 2\<rparr>],
      score = [''Ann'' \<mapsto> 8, ''Bob'' \<mapsto> 7],
      leader = P1, follower = P2, deals_done = 2, round_num = 15,
      tty = \<lparr>stdin = lines_of [''1'', ''1''], stdout = []\<rparr>\<rparr>"

definition late_game_end :: game where
  "late_game_end =
     \<lparr>p1 = \<lparr>name = ''Ann'', hand = []\<rparr>,
      p2 = \<lparr>name = ''Bob'', hand = []\<rparr>,
      deck = [],
      score = [''Ann'' \<mapsto> 8, ''Bob'' \<mapsto> 7](''Ann'' \<mapsto> 9),
      leader = P1, follower = P2, deals_done = 2, round_num = 16,
      tty = \<lparr>stdin = lines_of [],
             stdout = ''--- Round 16 ---'' @ [CHR 0x0A, CHR 0x0A] @ ''Ann'' @ [CHR 0x27]
        @ ''s hand: 9 of Clubs'' @ [CHR 0x0A] @ ''    1: 9 of Clubs'' @ [CHR 0x0A]
        @ ''Ann, choose a card (1-1): Ann leads: 9 of Clubs'' @ [CHR 0x0A]
        @ ''Bob, you must follow suit (Clubs):'' @ [CHR 0x0A] @ ''    1: 3 of Clubs''
        @ [CHR 0x0A] @ ''Bob, choose a card (1-1): Bob plays: 3 of Clubs'' @ [CHR 0x0A]
        @ ''Ann wins the trick!'' @ [CHR 0x0A, CHR 0x0A]
        @ ''Revealed from deck: 2 of Hearts'' @ [CHR 0x0A] @ ''Score ''
        @ [CHR 0xE2, CHR 0x86, CHR 0x92] @ '' Ann: 9 | Bob: 7'' @ [CHR 0x0A, CHR 0x0A]\<rparr>\<rparr>"

text \<open>
  Two players who both entered the name Sam, before and after the ninth round: the
  dictionary of scores has the one key.
\<close>

definition twins :: game where
  "twins =
     \<lparr>p1 = \<lparr>name = ''Sam'', hand = [\<lparr>suit = ''Spades'', rank = ''7'', cvalue = 7\<rparr>]\<rparr>,
      p2 = \<lparr>name = ''Sam'', hand = [\<lparr>suit = ''Hearts'', rank = ''Ace'', cvalue = 13\<rparr>]\<rparr>,
      deck = [\<lparr>suit = ''Diamonds'', rank = ''2'', cvalue = 2\<rparr>],
      score = [''Sam'' \<mapsto> 8],
      leader = P2, follower = P1, deals_done = 2, round_num = 8,
      tty = \<lparr>stdin = lines_of [''1'', ''1''], stdout = []\<rparr>\<rparr>"

definition twins_end :: game where
  "twins_end =
     \<lparr>p1 = \<lparr>name = ''Sam'', hand = []\<rparr>,
      p2 = \<lparr>name = ''Sam'', hand = []\<rparr>,
      deck = [],
      score = [''Sam'' \<mapsto> 9],
      leader = P2, follower = P1, deals_done = 2, round_num = 9,
      tty = \<lparr>stdin = lines_of [],
             stdout = ''--- Round 9 ---'' @ [CHR 0x0A, CHR 0x0A] @ ''Sam'' @ [CHR 0x27]
        @ ''s hand: Ace of Hearts'' @ [CHR 0x0A] @ ''    1: Ace of Hearts'' @ [CHR 0x0A]
        @ ''Sam, choose a card (1-1): Sam leads: Ace of Hearts'' @ [CHR 0x0A]
        @ ''Sam, you have no Hearts. Play any card: '' @ [CHR 0x0A] @ ''    1: 7 of Spades''
        @ [CHR 0x0A] @ ''Sam, choose a card (1-1): Sam plays: 7 of Spades'' @ [CHR 0x0A]
        @ ''Sam wins the trick!'' @ [CHR 0x0A, CHR 0x0A]
        @ ''Revealed from deck: 2 of Diamonds'' @ [CHR 0x0A] @ ''Score ''
        @ [CHR 0xE2, CHR 0x86, CHR 0x92] @ '' Sam: 9 | Sam: 9'' @ [CHR 0x0A, CHR 0x0A]\<rparr>\<rparr>"

text \<open>
  The state at the re-deal check of the fourth round, four cards in each hand and eight
  in the deck, and the state after the re-deal.
\<close>

definition four_each :: game where
  "four_each =
     \<lparr>p1 = \<lparr>name = ''Ann'', hand = [\<lparr>suit = ''Clubs'', rank = ''2'', cvalue = 2\<rparr>,
              \<lparr>suit = ''Clubs'', rank = ''3'', cvalue = 3\<rparr>,
              \<lparr>suit = ''Clubs'', rank = ''4'', cvalue = 4\<rparr>,
              \<lparr>suit = ''Clubs'', rank = ''5'', cvalue = 5\<rparr>]\<rparr>,
      p2 = \<lparr>name = ''Bob'', hand = [\<lparr>suit = ''Spades'', rank = ''2'', cvalue = 2\<rparr>,
              \<lparr>suit = ''Spades'', rank = ''3'', cvalue = 3\<rparr>,
              \<lparr>suit = ''Spades'', rank = ''4'', cvalue = 4\<rparr>,
              \<lparr>suit = ''Spades'', rank = ''5'', cvalue = 5\<rparr>]\<rparr>,
      deck = [\<lparr>suit = ''Hearts'', rank = ''2'', cvalue = 2\<rparr>,
              \<lparr>suit = ''Hearts'', rank = ''3'', cvalue = 3\<rparr>,
              \<lparr>suit = ''Hearts'', rank = ''4'', cvalue = 4\<rparr>,
              \<lparr>suit = ''Hearts'', rank = ''5'', cvalue = 5\<rparr>,
              \<lparr>suit = ''Hearts'', rank = ''6'', cvalue = 6\<rparr>,
              \<lparr>suit = ''Hearts'', rank = ''7'', cvalue = 7\<rparr>,
              \<lparr>suit = ''Hearts'', rank = ''8'', cvalue = 8\<rparr>,
              \<lparr>suit = ''Hearts'', rank = ''9'', cvalue = 9\<rparr>],
      score = [''Ann'' \<mapsto> 3, ''Bob'' \<mapsto> 1],
      leader = P1, follower = P2, deals_done = 0, round_num = 4,
      tty = \<lparr>stdin = lines_of [], stdout = []\<rparr>\<rparr>"

definition four_each_end :: game where
  "four_each_end =
     \<lparr>p1 = \<lparr>name = ''Ann'', hand = [\<lparr>suit = ''Clubs'', rank = ''2'', cvalue = 2\<rparr>,
              \<lparr>suit = ''Clubs'', rank = ''3'', cvalue = 3\<rparr>,
              \<lparr>suit = ''Clubs'', rank = ''4'', cvalue = 4\<rparr>,
              \<lparr>suit = ''Clubs'', rank = ''5'', cvalue = 5\<rparr>,
              \<lparr>suit = ''Hearts'', rank = ''9'', cvalue = 9\<rparr>,
              \<lparr>suit = ''Hearts'', rank = ''8'', cvalue = 8\<rparr>,
              \<lparr>suit = ''Hearts'', rank = ''7'', cvalue = 7\<rparr>,
              \<lparr>suit = ''Hearts'', rank = ''6'', cvalue = 6\<rparr>]\<rparr>,
      p2 = \<lparr>name = ''Bob'', hand = [\<lparr>suit = ''Spades'', rank = ''2'', cvalue = 2\<rparr>,
              \<lparr>suit = ''Spades'', rank = ''3'', cvalue = 3\<rparr>,
              \<lparr>suit = ''Spades'', rank = ''4'', cvalue = 4\<rparr>,
              \<lparr>suit = ''Spades'', rank = ''5'', cvalue = 5\<rparr>,
              \<lparr>suit = ''Hearts'', rank = ''5'', cvalue = 5\<rparr>,
              \<lparr>suit = ''Hearts'', rank = ''4'', cvalue = 4\<rparr>,
              \<lparr>suit = ''Hearts'', rank = ''3'', cvalue = 3\<rparr>,
              \<lparr>suit = ''Hearts'', rank = ''2'', cvalue = 2\<rparr>]\<rparr>,
      deck = [],
      score = [''Ann'' \<mapsto> 3, ''Bob'' \<mapsto> 1],
      leader = P1, follower = P2, deals_done = 1, round_num = 4,
      tty = \<lparr>stdin = lines_of [],
             stdout = [CHR 0x0A] @ ''Dealing 4 new cards to each player...''
                        @ [CHR 0x0A, CHR 0x0A]\<rparr>\<rparr>"

text \<open>
  A follower who holds a Heart and a Spade, asked to follow Hearts, with the answer 1 on
  the input; and the terminal after the answer.
\<close>

definition bob :: player where
  "bob = \<lparr>name = ''Bob'', hand = [\<lparr>suit = ''Spades'', rank = ''3'', cvalue = 3\<rparr>,
                                   \<lparr>suit = ''Hearts'', rank = ''8'', cvalue = 8\<rparr>]\<rparr>"

definition bob_asked :: io where
  "bob_asked = \<lparr>stdin = lines_of [''1''], stdout = []\<rparr>"

definition bob_answered :: io where
  "bob_answered =
     \<lparr>stdin = lines_of [],
      stdout = ''Bob, you must follow suit (Hearts):'' @ [CHR 0x0A] @ ''    1: 8 of Hearts''
                 @ [CHR 0x0A] @ ''Bob, choose a card (1-1): ''\<rparr>"

text \<open>
  The state before the sixteenth round again, with no card left in the deck, and the
  state after the round: nothing is revealed.
\<close>

definition empty_deck :: game where
  "empty_deck = late_game\<lparr>deck := []\<rparr>"

definition empty_deck_end :: game where
  "empty_deck_end =
     late_game_end\<lparr>tty := \<lparr>stdin = lines_of [],
             stdout = ''--- Round 16 ---'' @ [CHR 0x0A, CHR 0x0A] @ ''Ann'' @ [CHR 0x27]
        @ ''s hand: 9 of Clubs'' @ [CHR 0x0A] @ ''    1: 9 of Clubs'' @ [CHR 0x0A]
        @ ''Ann, choose a card (1-1): Ann leads: 9 of Clubs'' @ [CHR 0x0A]
        @ ''Bob, you must follow suit (Clubs):'' @ [CHR 0x0A] @ ''    1: 3 of Clubs''
        @ [CHR 0x0A] @ ''Bob, choose a card (1-1): Bob plays: 3 of Clubs'' @ [CHR 0x0A]
        @ ''Ann wins the trick!'' @ [CHR 0x0A, CHR 0x0A] @ ''Score ''
        @ [CHR 0xE2, CHR 0x86, CHR 0x92] @ '' Ann: 9 | Bob: 7'' @ [CHR 0x0A, CHR 0x0A]\<rparr>\<rparr>"

text \<open>
  The end of a game in which Ann has won all sixteen tricks, before and after the summary.
\<close>

definition moon :: game where
  "moon =
     \<lparr>p1 = \<lparr>name = ''Ann'', hand = []\<rparr>,
      p2 = \<lparr>name = ''Bob'', hand = []\<rparr>,
      deck = [],
      score = [''Ann'' \<mapsto> 16, ''Bob'' \<mapsto> 0],
      leader = P1, follower = P2, deals_done = 2, round_num = 16,
      tty = \<lparr>stdin = lines_of [], stdout = []\<rparr>\<rparr>"

definition moon_end :: game where
  "moon_end =
     moon\<lparr>tty := \<lparr>stdin = lines_of [],
             stdout = ''=== GAME OVER ==='' @ [CHR 0x0A] @ ''Final Score ''
               @ [CHR 0xE2, CHR 0x86, CHR 0x92] @ '' Ann: 16 | Bob: 0'' @ [CHR 0x0A]
               @ ''Bob shot the moon and wins 17-16!'' @ [CHR 0x0A]\<rparr>\<rparr>"

text \<open>
  A game before its eleventh round with the scores 8 and 2, and the state after Ann has
  won that round: 9 and 2.
\<close>

definition early_game :: game where
  "early_game =
     \<lparr>p1 = \<lparr>name = ''Ann'', hand = [\<lparr>suit = ''Clubs'', rank = ''9'', cvalue = 9\<rparr>,
              \<lparr>suit = ''Clubs'', rank = ''Ace'', cvalue = 13\<rparr>,
              \<lparr>suit = ''Hearts'', rank = ''4'', cvalue = 4\<rparr>,
              \<lparr>suit = ''Spades'', rank = ''10'', cvalue = 10\<rparr>,
              \<lparr>suit = ''Spades'', rank = ''Jack'', cvalue = 11\<rparr>,
              \<lparr>suit = ''Diamonds'', rank = ''5'', cvalue = 5\<rparr>]\<rparr>,
      p2 = \<lparr>name = ''Bob'', hand = [\<lparr>suit = ''Hearts'', rank = ''Queen'', cvalue = 12\<rparr>,
              \<lparr>suit = ''Clubs'', rank = ''3'', cvalue = 3\<rparr>,
              \<lparr>suit = ''Clubs'', rank = ''Jack'', cvalue = 11\<rparr>,
              \<lparr>suit = ''Diamonds'', rank = ''7'', cvalue = 7\<rparr>,
              \<lparr>suit = ''Spades'', rank = ''2'', cvalue = 2\<rparr>,
              \<lparr>suit = ''Hearts'', rank = ''6'', cvalue = 6\<rparr>]\<rparr>,
      deck = [\<lparr>suit = ''Hearts'', rank = ''2'', cvalue = 2\<rparr>,
              \<lparr>suit = ''Hearts'', rank = ''3'', cvalue = 3\<rparr>,
              \<lparr>suit = ''Diamonds'', rank = ''9'', cvalue = 9\<rparr>,
              \<lparr>suit = ''Diamonds'', rank = ''Ace'', cvalue = 13\<rparr>,
              \<lparr>suit = ''Spades'', rank = ''4'', cvalue = 4\<rparr>,
              \<lparr>suit = ''Clubs'', rank = ''6'', cvalue = 6\<rparr>],
      score = [''Ann'' \<mapsto> 8, ''Bob'' \<mapsto> 2],
      leader = P1, follower = P2, deals_done = 2, round_num = 10,
      tty = \<lparr>stdin = lines_of [''2'', ''1''], stdout = []\<rparr>\<rparr>"

definition early_game_end :: game where
  "early_game_end =
     \<lparr>p1 = \<lparr>name = ''Ann'', hand = [\<lparr>suit = ''Clubs'', rank = ''9'', cvalue = 9\<rparr>,
              \<lparr>suit = ''Hearts'', rank = ''4'', cvalue = 4\<rparr>,
              \<lparr>suit = ''Spades'', rank = ''10'', cvalue = 10\<rparr>,
              \<lparr>suit = ''Spades'', rank = ''Jack'', cvalue = 11\<rparr>,
              \<lparr>suit = ''Diamonds'', rank = ''5'', cvalue = 5\<rparr>]\<rparr>,
      p2 = \<lparr>name = ''Bob'', hand = [\<lparr>suit = ''Hearts'', rank = ''Queen'', cvalue = 12\<rparr>,
              \<lparr>suit = ''Clubs'', rank = ''Jack'', cvalue = 11\<rparr>,
              \<lparr>suit = ''Diamonds'', rank = ''7'', cvalue = 7\<rparr>,
              \<lparr>suit = ''Spades'', rank = ''2'', cvalue = 2\<rparr>,
              \<lparr>suit = ''Hearts'', rank = ''6'', cvalue = 6\<rparr>]\<rparr>,
      deck = [\<lparr>suit = ''Hearts'', rank = ''2'', cvalue = 2\<rparr>,
              \<lparr>suit = ''Hearts'', rank = ''3'', cvalue = 3\<rparr>,
              \<lparr>suit = ''Diamonds'', rank = ''9'', cvalue = 9\<rparr>,
              \<lparr>suit = ''Diamonds'', rank = ''Ace'', cvalue = 13\<rparr>,
              \<lparr>suit = ''Spades'', rank = ''4'', cvalue = 4\<rparr>],
      score = [''Ann'' \<mapsto> 8, ''Bob'' \<mapsto> 2](''Ann'' \<mapsto> 9),
      leader = P1, follower = P2, deals_done = 2, round_num = 11,
      tty = \<lparr>stdin = lines_of [],
             stdout = ''--- Round 11 ---'' @ [CHR 0x0A, CHR 0x0A] @ ''Ann'' @ [CHR 0x27]
        @ ''s hand: 9 of Clubs, Ace of Clubs, 4 of Hearts, 10 of Spades, Jack of Spades, 5 of Diamonds''
        @ [CHR 0x0A] @ ''    1: 9 of Clubs'' @ [CHR 0x0A] @ ''    2: Ace of Clubs''
        @ [CHR 0x0A] @ ''    3: 4 of Hearts'' @ [CHR 0x0A] @ ''    4: 10 of Spades''
        @ [CHR 0x0A] @ ''    5: Jack of Spades'' @ [CHR 0x0A] @ ''    6: 5 of Diamonds''
        @ [CHR 0x0A] @ ''Ann, choose a card (1-6): Ann leads: Ace of Clubs'' @ [CHR 0x0A]
        @ ''Bob, you must follow suit (Clubs):'' @ [CHR 0x0A] @ ''    1: 3 of Clubs''
        @ [CHR 0x0A] @ ''    2: Jack of Clubs'' @ [CHR 0x0A]
        @ ''Bob, choose a card (1-2): Bob plays: 3 of Clubs'' @ [CHR 0x0A]
        @ ''Ann wins the trick!'' @ [CHR 0x0A, CHR 0x0A]
        @ ''Revealed from deck: 6 of Clubs'' @ [CHR 0x0A] @ ''Score ''
        @ [CHR 0xE2, CHR 0x86, CHR 0x92] @ '' Ann: 9 | Bob: 2'' @ [CHR 0x0A, CHR 0x0A]\<rparr>\<rparr>"

section \<open>Properties\<close>

subsection \<open>Cards and tricks\<close>

lemma VALUE_MAP_unfold:
  "VALUE_MAP = [''2'' \<mapsto> 2, ''3'' \<mapsto> 3, ''4'' \<mapsto> 4, ''5'' \<mapsto> 5, ''6'' \<mapsto> 6, ''7'' \<mapsto> 7,
     ''8'' \<mapsto> 8, ''9'' \<mapsto> 9, ''10'' \<mapsto> 10, ''Jack'' \<mapsto> 11, ''Queen'' \<mapsto> 12, ''Ace'' \<mapsto> 13]"
  by (simp add: VALUE_MAP_def RANKS_def)

lemma below_12_cases:
  "i < (12::nat) \<Longrightarrow> i = 0 \<or> i = 1 \<or> i = 2 \<or> i = 3 \<or> i = 4 \<or> i = 5 \<or> i = 6 \<or> i = 7 \<or> i = 8
     \<or> i = 9 \<or> i = 10 \<or> i = 11"
  by arith

lemma VALUE_MAP_nth: "i < 12 \<Longrightarrow> VALUE_MAP (RANKS ! i) = Some (int i + 2)"
  by (drule below_12_cases) (auto simp: VALUE_MAP_unfold RANKS_def)

lemma VALUE_MAP_range: "VALUE_MAP r = Some v \<Longrightarrow> 2 \<le> v \<and> v \<le> 13"
  by (auto simp: VALUE_MAP_unfold split: if_splits)

lemma Card_init_Inr:
  "Card_init s r = Inr c \<longleftrightarrow> (\<exists>v. VALUE_MAP r = Some v \<and> c = \<lparr>suit = s, rank = r, cvalue = v\<rparr>)"
  by (auto simp: Card_init_def split: option.splits)

text \<open>
  C2, as the code has it. The value of a card is read from \<open>VALUE_MAP\<close> at its rank
  alone, whatever the suit; it lies between 2 and 14; of two ranks the one later in
  \<open>RANKS\<close> has the greater value. The Queen has the value 12, not 14 (the ranks are
  numbered from 2 without a King, so that the Ace has 13): the Queen of Hearts beats the
  8 of Hearts by 12 > 8.
\<close>

theorem Card_value_by_rank:
  "(Card_init s r = Inr c \<longrightarrow>
      rank c = r \<and> VALUE_MAP r = Some (cvalue c) \<and> 2 \<le> cvalue c \<and> cvalue c \<le> 14)
   \<and> (Card_init s r = Inr c \<and> Card_init s' r = Inr c' \<longrightarrow> cvalue c = cvalue c')
   \<and> length RANKS = 12
   \<and> (i < j \<and> j < length RANKS \<longrightarrow>
        (\<exists>ci cj. Card_init s (RANKS ! i) = Inr ci \<and> Card_init s' (RANKS ! j) = Inr cj
                 \<and> cvalue ci < cvalue cj))
   \<and> (\<exists>q e. Card_init ''Hearts'' ''Queen'' = Inr q \<and> Card_init ''Hearts'' ''8'' = Inr e
            \<and> cvalue q = 12 \<and> cvalue e = 8 \<and> determine_winner ld q fl e = ld)"
proof (intro conjI impI)
  assume "Card_init s r = Inr c"
  then obtain v where v: "VALUE_MAP r = Some v" "c = \<lparr>suit = s, rank = r, cvalue = v\<rparr>"
    by (auto simp: Card_init_Inr)
  from VALUE_MAP_range [OF v(1)] v
  show "rank c = r" "VALUE_MAP r = Some (cvalue c)" "2 \<le> cvalue c" "cvalue c \<le> 14"
    by simp_all
next
  assume "Card_init s r = Inr c \<and> Card_init s' r = Inr c'"
  then show "cvalue c = cvalue c'"
    by (auto simp: Card_init_Inr)
next
  show len: "length RANKS = 12"
    by (simp add: RANKS_def)
  assume ij: "i < j \<and> j < length RANKS"
  then have "i < 12" "j < 12" using len by auto
  then have "VALUE_MAP (RANKS ! i) = Some (int i + 2)" "VALUE_MAP (RANKS ! j) = Some (int j + 2)"
    by (simp_all add: VALUE_MAP_nth)
  with ij show "\<exists>ci cj. Card_init s (RANKS ! i) = Inr ci \<and> Card_init s' (RANKS ! j) = Inr cj
                 \<and> cvalue ci < cvalue cj"
    by (simp add: Card_init_def)
next
  show "\<exists>q e. Card_init ''Hearts'' ''Queen'' = Inr q \<and> Card_init ''Hearts'' ''8'' = Inr e
            \<and> cvalue q = 12 \<and> cvalue e = 8 \<and> determine_winner ld q fl e = ld"
    by (simp add: Card_init_def VALUE_MAP_unfold determine_winner_def)
qed

theorem Card_value_by_rank_witness:
  "Card_init ''Spades'' ''Jack'' = Inr \<lparr>suit = ''Spades'', rank = ''Jack'', cvalue = 11\<rparr>
   \<and> Card_init ''Clubs'' ''Jack'' = Inr \<lparr>suit = ''Clubs'', rank = ''Jack'', cvalue = 11\<rparr>
   \<and> (6::nat) < 10 \<and> (10::nat) < length RANKS
   \<and> VALUE_MAP ''Jack'' = Some 11
   \<and> (\<exists>ci cj. Card_init ''Spades'' (RANKS ! 6) = Inr ci \<and> Card_init ''Clubs'' (RANKS ! 10) = Inr cj
                 \<and> cvalue ci < cvalue cj)"
  using Card_value_by_rank [of "''Spades''" "''Jack''" "\<lparr>suit = ''Spades'', rank = ''Jack'', cvalue = 11\<rparr>"
      "''Clubs''" "\<lparr>suit = ''Clubs'', rank = ''Jack'', cvalue = 11\<rparr>" 6 10 P1 P2]
  by (simp add: Card_init_def VALUE_MAP_unfold)

text \<open>
  C2, as the specification words it, fails: the Queen of Hearts is built with the value
  12, and not with the value 14.
\<close>

theorem Queen_value_counterexample:
  "Card_init ''Hearts'' ''Queen'' = Inr \<lparr>suit = ''Hearts'', rank = ''Queen'', cvalue = 12\<rparr>
   \<and> Card_init ''Hearts'' ''Queen'' \<noteq> Inr \<lparr>suit = ''Hearts'', rank = ''Queen'', cvalue = 14\<rparr>"
  by (simp add: Card_init_def VALUE_MAP_unfold)

text \<open>
  C3. The winner of a trick is decided by the two cards alone: the same two cards give the
  same role whoever the players are. When the follow card has the suit of the lead card,
  the card with the strictly greater value wins; when it has another suit, the leader
  wins whatever the values are.
\<close>

theorem determine_winner_rule:
  "determine_winner lead_player lead_card follow_player follow_card =
     (if determine_winner True lead_card False follow_card then lead_player else follow_player)
   \<and> (suit follow_card = suit lead_card \<longrightarrow>
        (cvalue follow_card > cvalue lead_card \<longrightarrow>
           determine_winner lead_player lead_card follow_player follow_card = follow_player)
        \<and> (cvalue lead_card > cvalue follow_card \<longrightarrow>
           determine_winner lead_player lead_card follow_player follow_card = lead_player))
   \<and> (suit follow_card \<noteq> suit lead_card \<longrightarrow>
         determine_winner lead_player lead_card follow_player follow_card = lead_player)"
  by (simp add: determine_winner_def)

theorem determine_winner_rule_witness:
  "suit \<lparr>suit = ''Hearts'', rank = ''8'', cvalue = 8\<rparr> = suit \<lparr>suit = ''Hearts'', rank = ''Queen'', cvalue = 12\<rparr>
   \<and> cvalue \<lparr>suit = ''Hearts'', rank = ''Queen'', cvalue = 12\<rparr> > cvalue \<lparr>suit = ''Hearts'', rank = ''8'', cvalue = 8\<rparr>
   \<and> determine_winner P1 \<lparr>suit = ''Hearts'', rank = ''Queen'', cvalue = 12\<rparr>
        P2 \<lparr>suit = ''Hearts'', rank = ''8'', cvalue = 8\<rparr> = P1
   \<and> suit \<lparr>suit = ''Hearts'', rank = ''Ace'', cvalue = 13\<rparr> \<noteq> suit \<lparr>suit = ''Spades'', rank = ''2'', cvalue = 2\<rparr>
   \<and> determine_winner P1 \<lparr>suit = ''Spades'', rank = ''2'', cvalue = 2\<rparr>
        P2 \<lparr>suit = ''Hearts'', rank = ''Ace'', cvalue = 13\<rparr> = P1"
  using determine_winner_rule [of P1 "\<lparr>suit = ''Hearts'', rank = ''Queen'', cvalue = 12\<rparr>" P2
          "\<lparr>suit = ''Hearts'', rank = ''8'', cvalue = 8\<rparr>"]
        determine_winner_rule [of P1 "\<lparr>suit = ''Spades'', rank = ''2'', cvalue = 2\<rparr>" P2
          "\<lparr>suit = ''Hearts'', rank = ''Ace'', cvalue = 13\<rparr>"]
  by (simp add: determine_winner_def)

text \<open>
  C9. Two cards of one suit with equal values: the comparison is strict, so the leader
  takes the trick.
\<close>

theorem determine_winner_tie:
  "suit follow_card = suit lead_card \<Longrightarrow> cvalue follow_card = cvalue lead_card \<Longrightarrow>
     determine_winner lead_player lead_card follow_player follow_card = lead_player"
  by (simp add: determine_winner_def)

theorem determine_winner_tie_witness:
  "suit \<lparr>suit = ''Clubs'', rank = ''7'', cvalue = 7\<rparr> = suit \<lparr>suit = ''Clubs'', rank = ''7'', cvalue = 7\<rparr>
   \<and> cvalue \<lparr>suit = ''Clubs'', rank = ''7'', cvalue = 7\<rparr> = cvalue \<lparr>suit = ''Clubs'', rank = ''7'', cvalue = 7\<rparr>
   \<and> determine_winner P2 \<lparr>suit = ''Clubs'', rank = ''7'', cvalue = 7\<rparr>
        P1 \<lparr>suit = ''Clubs'', rank = ''7'', cvalue = 7\<rparr> = P2"
  using determine_winner_tie [of "\<lparr>suit = ''Clubs'', rank = ''7'', cvalue = 7\<rparr>"
          "\<lparr>suit = ''Clubs'', rank = ''7'', cvalue = 7\<rparr>" P2 P1]
  by simp

subsection \<open>Every prompt returns on an input that ends\<close>

lemma stdin_print [simp]: "stdin (print s t) = stdin t"
  by (simp add: print_def)

lemma stdin_print_choices [simp]: "stdin (print_choices vs t) = stdin t"
proof -
  have "stdin (foldl (\<lambda>t (idx, c). print (''    '' @ str_int (int idx) @ '': '' @ Card_str c) t) t xs)
          = stdin t" for xs :: "(nat \<times> card) list"
    by (induction xs arbitrary: t) (auto split: prod.splits)
  then show ?thesis
    by (simp add: print_choices_def)
qed

lemma input_cases:
  "(stdin t 0 = None \<and> input p t = Inl EOFError)
   \<or> (\<exists>l t'. stdin t 0 = Some l \<and> input p t = Inr (l, t') \<and> stdin t' = (\<lambda>n. stdin t (Suc n)))"
  by (cases "stdin t 0") (simp_all add: input_def)

lemma prompt_card_choice_returns:
  "stdin t n = None \<Longrightarrow>
     \<exists>r. prompt_card_choice pl vs t = Some r
        \<and> (\<forall>c t'. r = Inr (c, t') \<longrightarrow> (\<exists>m. stdin t' m = None))"
proof (induction n arbitrary: t)
  case 0
  then have "input (name pl @ '', choose a card (1-'' @ str_int (int (length vs)) @ ''): '')
               (print_choices vs t) = Inl EOFError"
    by (simp add: input_def)
  then show ?case
    by (subst prompt_card_choice.simps) simp
next
  case (Suc n)
  let ?p = "name pl @ '', choose a card (1-'' @ str_int (int (length vs)) @ ''): ''"
  from input_cases [of "print_choices vs t" ?p]
  show ?case
  proof (elim disjE conjE exE)
    assume "input ?p (print_choices vs t) = Inl EOFError"
    then show ?thesis
      by (subst prompt_card_choice.simps) simp
  next
    fix l t1
    assume inp: "input ?p (print_choices vs t) = Inr (l, t1)"
      and t1: "stdin t1 = (\<lambda>n. stdin (print_choices vs t) (Suc n))"
    from t1 Suc.prems have end1: "stdin t1 n = None" by simp
    show ?thesis
    proof (cases "isdigit l \<and> 0 \<le> int_of_str l - 1 \<and> int_of_str l - 1 < int (length vs)")
      case True
      with inp end1 show ?thesis
        by (subst prompt_card_choice.simps) auto
    next
      case False
      from end1 have "stdin (print ''Invalid selection; try again.'' t1) n = None" by simp
      from Suc.IH [OF this] False inp show ?thesis
        by (subst prompt_card_choice.simps) auto
    qed
  qed
qed

lemma get_lead_card_returns:
  "stdin t n = None \<Longrightarrow>
     \<exists>r. get_lead_card pl t = Some r \<and> (\<forall>c t'. r = Inr (c, t') \<longrightarrow> (\<exists>m. stdin t' m = None))"
  unfolding get_lead_card_def by (rule prompt_card_choice_returns) simp

lemma get_follow_card_returns:
  "stdin t n = None \<Longrightarrow>
     \<exists>r. get_follow_card pl ls t = Some r \<and> (\<forall>c t'. r = Inr (c, t') \<longrightarrow> (\<exists>m. stdin t' m = None))"
  unfolding get_follow_card_def Let_def
  by (auto intro!: prompt_card_choice_returns [where n = n])

lemma returns_bind:
  "returns m P \<Longrightarrow> (\<And>x. P x \<Longrightarrow> returns (f x) Q) \<Longrightarrow> returns (bind_r m f) Q"
  by (auto simp: returns_def bind_r_def split: sum.splits)

lemma returns_Some: "(\<And>x. r = Inr x \<Longrightarrow> P x) \<Longrightarrow> returns (Some r) P"
  by (simp add: returns_def)

lemma returns_lead:
  "stdin t n = None \<Longrightarrow> returns (get_lead_card pl t) (\<lambda>(c, t'). \<exists>m. stdin t' m = None)"
  using get_lead_card_returns [of t n pl] by (auto simp: returns_def)

lemma returns_follow:
  "stdin t n = None \<Longrightarrow> returns (get_follow_card pl ls t) (\<lambda>(c, t'). \<exists>m. stdin t' m = None)"
  using get_follow_card_returns [of t n pl ls] by (auto simp: returns_def)

lemma play_cards_returns:
  assumes "stdin (tty g) n = None"
  shows "returns (play_cards g) (\<lambda>g'. \<exists>m. stdin (tty g') m = None)"
  unfolding play_cards_def Let_def
  apply (rule returns_bind [where P = "\<lambda>(c, t'). \<exists>m. stdin t' m = None"])
   apply (rule returns_lead [where n = n])
   apply (simp add: assms)
  apply (clarsimp simp del: set_hand_fields split del: if_split)
  apply (rule returns_bind [where P = "\<lambda>_. True"])
   apply (simp add: returns_def)
  apply (rule returns_bind [where P = "\<lambda>(c, t'). \<exists>m. stdin t' m = None"])
   apply (rule returns_follow)
   apply simp
  apply (clarsimp simp del: set_hand_fields split del: if_split)
  apply (rule returns_bind [where P = "\<lambda>_. True"])
   apply (simp add: returns_def)
  apply (rule returns_bind [where P = "\<lambda>_. True"])
   apply (simp add: returns_def)
  apply (rule returns_Some)
  apply auto
  done

lemma stdin_reveal [simp]: "stdin (tty (reveal g)) = stdin (tty g)"
  by (simp add: reveal_def split: prod.splits option.splits)

lemma stdin_redeal: "redeal g = Inr g' \<Longrightarrow> stdin (tty g') = stdin (tty g)"
  by (auto simp: redeal_def Let_def bind_e_Inr split: if_splits)

lemma stdin_show_score: "show_score g = Inr g' \<Longrightarrow> stdin (tty g') = stdin (tty g)"
  by (auto simp: show_score_def bind_e_Inr)

lemma play_round_returns:
  assumes "stdin (tty g) n = None"
  shows "returns (play_round g) (\<lambda>g'. \<exists>m. stdin (tty g') m = None)"
  unfolding play_round_def
  apply (rule returns_bind [OF play_cards_returns [OF assms]])
  apply (rule returns_Some)
  apply (auto simp: bind_e_Inr dest!: stdin_redeal stdin_show_score)
  done


lemma game_loop_returns:
  "stdin (tty g) n = None \<Longrightarrow> \<exists>r. game_loop g = Some r"
proof (induction g arbitrary: n rule: game_loop.induct)
  case (1 g)
  show ?case
  proof (cases "loop_cond g")
    case (Inl e)
    then show ?thesis by (subst game_loop.simps) (simp add: bind_r_def)
  next
    case (Inr b)
    show ?thesis
    proof (cases b)
      case False
      with Inr show ?thesis by (subst game_loop.simps) (simp add: bind_r_def)
    next
      case True
      from play_round_returns [OF "1.prems"]
      obtain r where r: "play_round g = Some r"
        and e: "\<And>g'. r = Inr g' \<Longrightarrow> \<exists>m. stdin (tty g') m = None"
        by (auto simp: returns_def)
      show ?thesis
      proof (cases r)
        case (Inl e)
        with Inr True r show ?thesis by (subst game_loop.simps) (simp add: bind_r_def)
      next
        case g': (Inr g')
        from e [OF g'] obtain m where m: "stdin (tty g') m = None" ..
        from "1.IH" [of True g' m] Inr True r g' m
        obtain r' where "game_loop g' = Some r'" by auto
        with Inr True r g' show ?thesis by (subst game_loop.simps) (simp add: bind_r_def)
      qed
    qed
  qed
qed

subsection \<open>The loop and its trace\<close>

lemma loop_cond_False_iff: "loop_cond g = Inr False \<longleftrightarrow> \<not> round_num g < 16 \<or> early_end g"
  by (auto simp: loop_cond_def early_end_def getitem_def bind_e_def split: option.splits)

lemma game_loop_unfold:
  "game_loop g =
     (case loop_cond g of
        Inl e \<Rightarrow> Some (Inl e)
      | Inr continue \<Rightarrow> if continue then bind_r (play_round g) game_loop else Some (Inr g))"
  by (subst game_loop.simps) (simp add: bind_r_def split: sum.splits)

lemma game_trace_unfold:
  "game_trace g =
     g # (if loop_cond g = Inr True
          then (case play_round g of Some (Inr g') \<Rightarrow> game_trace g' | _ \<Rightarrow> [])
          else [])"
  by (subst game_trace.simps) simp

lemma game_trace_not_Nil [simp]: "game_trace g \<noteq> []"
  by (subst game_trace_unfold) simp

lemma game_loop_final:
  "game_loop g = Some (Inr g') \<Longrightarrow>
     loop_cond g' = Inr False \<and> g' = last (game_trace g)"
proof (induction g rule: game_loop.induct)
  case (1 g)
  show ?case
  proof (cases "loop_cond g = Inr True")
    case True
    with "1.prems" obtain m where m: "play_round g = Some (Inr m)" "game_loop m = Some (Inr g')"
      by (subst (asm) game_loop_unfold) (auto simp: bind_r_Inr)
    have "loop_cond g' = Inr False \<and> g' = last (game_trace m)"
      by (rule "1.IH" [of True m]) (use True m in simp_all)
    then have a: "loop_cond g' = Inr False" and b: "g' = last (game_trace m)"
      by blast+
    from True m have "last (game_trace g) = last (game_trace m)"
      by (subst game_trace_unfold) simp
    with a b show ?thesis by simp
  next
    case False
    with "1.prems" have "g' = g \<and> loop_cond g = Inr False"
      by (subst (asm) game_loop_unfold) (auto split: sum.splits if_splits)
    with False show ?thesis
      by (subst game_trace_unfold) simp
  qed
qed

lemma game_trace_round_num:
  "i < length (game_trace g) \<Longrightarrow> round_num (game_trace g ! i) = round_num g + int i"
proof (induction g arbitrary: i rule: game_trace.induct)
  case (1 g)
  show ?case
  proof (cases i)
    case 0
    then show ?thesis by (subst game_trace_unfold) simp
  next
    case (Suc j)
    with "1.prems" obtain m where c: "loop_cond g = Inr True" and m: "play_round g = Some (Inr m)"
      and j: "j < length (game_trace m)"
      by (subst (asm) game_trace_unfold) (auto split: if_splits option.splits sum.splits)
    from "1.IH" [OF c m refl j] play_round_round_num [OF m] Suc c m show ?thesis
      by (subst game_trace_unfold) simp
  qed
qed

lemma game_trace_length: "length (game_trace g) \<le> nat (16 - round_num g) + 1"
proof (induction g rule: game_trace.induct)
  case (1 g)
  show ?case
  proof (cases "loop_cond g = Inr True \<and> (\<exists>m. play_round g = Some (Inr m))")
    case True
    then obtain m where c: "loop_cond g = Inr True" and m: "play_round g = Some (Inr m)" by blast
    from "1.IH" [OF c m refl] play_round_round_num [OF m] loop_cond_True [OF c] c m
    show ?thesis
      by (subst game_trace_unfold) simp
  next
    case False
    then show ?thesis
      by (subst game_trace_unfold) (auto split: option.splits sum.splits)
  qed
qed

lemma game_trace_stop:
  "s \<in> set (game_trace g) \<Longrightarrow> loop_cond s \<noteq> Inr True \<Longrightarrow> s = last (game_trace g)"
proof (induction g rule: game_trace.induct)
  case (1 g)
  show ?case
  proof (cases "loop_cond g = Inr True \<and> (\<exists>m. play_round g = Some (Inr m))")
    case True
    then obtain m where c: "loop_cond g = Inr True" and m: "play_round g = Some (Inr m)" by blast
    from "1.prems" c m have "s \<in> set (game_trace m)"
      by (subst (asm) game_trace_unfold) auto
    from "1.IH" [OF c m refl this "1.prems"(2)] c m show ?thesis
      by (subst game_trace_unfold) simp
  next
    case False
    then have "game_trace g = [g]"
      by (subst game_trace_unfold) (auto split: option.splits sum.splits)
    with "1.prems" show ?thesis by simp
  qed
qed

subsection \<open>The re-deal\<close>

lemma deal_Inr:
  "deal n cards = Inr (dealt, rest) \<Longrightarrow>
     length dealt = n \<and> cards = rest @ rev dealt"
proof (induction n arbitrary: cards dealt rest)
  case 0
  then show ?case by simp
next
  case (Suc n)
  from Suc.prems have ne: "cards \<noteq> []" by (auto split: if_splits)
  with Suc.prems obtain d where d: "deal n (butlast cards) = Inr (d, rest)" "dealt = last cards # d"
    by (auto simp: bind_e_Inr)
  from Suc.IH [OF d(1)] have "length d = n" "butlast cards = rest @ rev d" by simp_all
  with d(2) ne show ?case
    by (metis append.assoc append_butlast_last_id length_Cons rev.simps(2))
qed

lemma redeal_fires:
  assumes "redeal g = Inr g'"
    and "length (hand (p1 g)) = 4 \<and> length (hand (p2 g)) = 4 \<and> deals_done g < 2"
  shows "deals_done g' = deals_done g + 1
         \<and> (\<exists>c1 c2. length c1 = 4 \<and> length c2 = 4
               \<and> hand (p1 g') = hand (p1 g) @ c1 \<and> hand (p2 g') = hand (p2 g) @ c2
               \<and> deck g = deck g' @ rev c2 @ rev c1)"
proof -
  from assms obtain c1 d1 c2 d2 where
    d: "deal 4 (deck g) = Inr (c1, d1)" "deal 4 d1 = Inr (c2, d2)"
    and g': "deals_done g' = deals_done g + 1" "hand (p1 g') = hand (p1 g) @ c1"
      "hand (p2 g') = hand (p2 g) @ c2" "deck g' = d2"
    by (auto simp: redeal_def Let_def bind_e_Inr)
  from deal_Inr [OF d(1)] deal_Inr [OF d(2)] g' show ?thesis
    by auto
qed

lemma redeal_idle:
  "\<not> (length (hand (p1 g)) = 4 \<and> length (hand (p2 g)) = 4 \<and> deals_done g < 2) \<Longrightarrow>
     redeal g = Inr g"
  by (auto simp: redeal_def)

lemma play_cards_deals_done: "play_cards g = Some (Inr g') \<Longrightarrow> deals_done g' = deals_done g"
  by (auto simp: play_cards_def Let_def bind_r_Inr)

lemma reveal_fields [simp]:
  "deals_done (reveal g) = deals_done g" "p1 (reveal g) = p1 g" "p2 (reveal g) = p2 g"
  "score (reveal g) = score g"
  by (simp_all add: reveal_def split: prod.splits option.splits)

lemma show_score_fields:
  "show_score g = Inr g' \<Longrightarrow>
     deals_done g' = deals_done g \<and> p1 g' = p1 g \<and> p2 g' = p2 g \<and> score g' = score g
     \<and> deck g' = deck g"
  by (auto simp: show_score_def bind_e_Inr)

lemma play_round_steps:
  "play_round g = Some (Inr g') \<Longrightarrow>
     \<exists>m r. play_cards g = Some (Inr m) \<and> redeal (reveal m) = Inr r \<and> show_score r = Inr g'"
  by (auto simp: play_round_def bind_r_Inr bind_e_Inr)

lemma play_round_deals_done:
  assumes "play_round g = Some (Inr g')" and "deals_done g \<le> 2"
  shows "deals_done g \<le> deals_done g' \<and> deals_done g' \<le> 2"
proof -
  from play_round_steps [OF assms(1)] obtain m r where
    s: "play_cards g = Some (Inr m)" "redeal (reveal m) = Inr r" "show_score r = Inr g'"
    by blast
  have m: "deals_done (reveal m) = deals_done g"
    using play_cards_deals_done [OF s(1)] by simp
  have g': "deals_done g' = deals_done r"
    using show_score_fields [OF s(3)] by simp
  show ?thesis
  proof (cases "length (hand (p1 (reveal m))) = 4 \<and> length (hand (p2 (reveal m))) = 4
                 \<and> deals_done (reveal m) < 2")
    case True
    from redeal_fires [OF s(2) True] m g' True show ?thesis by simp
  next
    case False
    from redeal_idle [OF False] s(2) m g' assms(2) show ?thesis by simp
  qed
qed

lemma game_trace_cases:
  assumes "s \<in> set (game_trace g)"
  obtains "s = g"
  | m where "loop_cond g = Inr True" and "play_round g = Some (Inr m)"
      and "s \<in> set (game_trace m)"
proof (cases "loop_cond g = Inr True")
  case False
  then have "game_trace g = [g]"
    by (subst game_trace_unfold) simp
  with assms have "s = g" by (simp only: list.set insert_iff empty_iff) blast
  then show thesis by (rule that(1))
next
  case True
  show thesis
  proof (cases "\<exists>m. play_round g = Some (Inr m)")
    case False
    with True have "game_trace g = [g]"
      by (subst game_trace_unfold) (auto split: option.splits sum.splits)
    with assms have "s = g" by (simp only: list.set insert_iff empty_iff) blast
    then show thesis by (rule that(1))
  next
    case m: True
    then obtain m where m: "play_round g = Some (Inr m)" ..
    with True have "game_trace g = g # game_trace m"
      by (subst game_trace_unfold) simp
    with assms have "s = g \<or> s \<in> set (game_trace m)"
      by (simp only: list.set insert_iff)
    then show thesis
    proof
      assume "s = g"
      then show thesis by (rule that(1))
    next
      assume "s \<in> set (game_trace m)"
      with True m show thesis by (rule that(2))
    qed
  qed
qed

lemma game_trace_deals_done:
  "s \<in> set (game_trace g) \<Longrightarrow> deals_done g \<le> 2 \<Longrightarrow>
     deals_done g \<le> deals_done s \<and> deals_done s \<le> 2"
proof (induction g rule: game_trace.induct)
  case (1 g)
  from "1.prems"(1) show ?case
  proof (cases rule: game_trace_cases)
    case 1
    with "1.prems"(2) show ?thesis by simp
  next
    case (2 m)
    from play_round_deals_done [OF 2(2) "1.prems"(2)]
    have d: "deals_done g \<le> deals_done m" "deals_done m \<le> 2" by simp_all
    from "1.IH" [OF 2(1) 2(2) refl 2(3) d(2)] d show ?thesis by simp
  qed
qed

subsection \<open>Names and scores\<close>

lemma player_of_set_hand_name [simp]:
  "name (player_of (set_hand p h g) q) = name (player_of g q)"
  by (cases p; cases q; simp add: player_of_def set_hand_def)

lemma player_of_upd [simp]:
  "player_of (g\<lparr>tty := t\<rparr>) q = player_of g q"
  "player_of (g\<lparr>round_num := n\<rparr>) q = player_of g q"
  "player_of (g\<lparr>score := sc\<rparr>) q = player_of g q"
  by (cases q; simp add: player_of_def)+

lemma set_hand_names [simp]:
  "name (p1 (set_hand p h g)) = name (p1 g)" "name (p2 (set_hand p h g)) = name (p2 g)"
  by (cases p; simp add: set_hand_def)+

lemma name_player_of: "name (player_of g q) \<in> {name (p1 g), name (p2 g)}"
  by (cases q) (simp_all add: player_of_def)

lemma play_cards_names:
  "play_cards g = Some (Inr g') \<Longrightarrow> name (p1 g') = name (p1 g) \<and> name (p2 g') = name (p2 g)"
  by (auto simp: play_cards_def Let_def bind_r_Inr split del: if_split)

lemma play_cards_score:
  assumes "play_cards g = Some (Inr g')"
  shows "\<exists>w v. w \<in> {name (p1 g), name (p2 g)} \<and> score g w = Some v
           \<and> score g' = (score g)(w \<mapsto> v + 1)"
proof -
  from assms obtain q v where
    "score g (name (player_of g q)) = Some v"
    "score g' = (score g)(name (player_of g q) \<mapsto> v + 1)"
    by (auto simp: play_cards_def Let_def bind_r_Inr getitem_def
             split: option.splits split del: if_split)
  with name_player_of [of g q] show ?thesis by blast
qed


lemma play_round_names:
  assumes "play_round g = Some (Inr g')"
  shows "name (p1 g') = name (p1 g) \<and> name (p2 g') = name (p2 g)"
proof -
  from play_round_steps [OF assms] obtain m r where
    s: "play_cards g = Some (Inr m)" "redeal (reveal m) = Inr r" "show_score r = Inr g'"
    by blast
  have "name (p1 r) = name (p1 (reveal m)) \<and> name (p2 r) = name (p2 (reveal m))"
    using s(2) by (auto simp: redeal_def Let_def bind_e_Inr split: if_splits)
  with play_cards_names [OF s(1)] show_score_fields [OF s(3)]
  show ?thesis by simp
qed

lemma play_round_score:
  assumes "play_round g = Some (Inr g')"
  shows "\<exists>w v. w \<in> {name (p1 g), name (p2 g)} \<and> score g w = Some v
           \<and> score g' = (score g)(w \<mapsto> v + 1)"
proof -
  from play_round_steps [OF assms] obtain m r where
    s: "play_cards g = Some (Inr m)" "redeal (reveal m) = Inr r" "show_score r = Inr g'"
    by blast
  have "score r = score (reveal m)"
    using s(2) by (auto simp: redeal_def Let_def bind_e_Inr split: if_splits)
  with play_cards_score [OF s(1)] show_score_fields [OF s(3)]
  show ?thesis by simp
qed

lemma shared_round:
  assumes "name (p1 g) = name (p2 g)" and "score g (name (p1 g)) = Some v"
    and "play_round g = Some (Inr g')"
  shows "name (p1 g') = name (p1 g) \<and> name (p2 g') = name (p1 g)
         \<and> score g' (name (p1 g')) = Some (v + 1) \<and> score g' (name (p2 g')) = Some (v + 1)"
proof -
  from play_round_score [OF assms(3)] assms(1,2)
  have "score g' = (score g)(name (p1 g) \<mapsto> v + 1)" by auto
  with play_round_names [OF assms(3)] assms(1) show ?thesis by simp
qed

lemma shared_trace:
  "s \<in> set (game_trace g) \<Longrightarrow> name (p1 g) = name (p2 g) \<Longrightarrow> name (p1 s) = name (p2 s)"
proof (induction g rule: game_trace.induct)
  case (1 g)
  from "1.prems"(1) show ?case
  proof (cases rule: game_trace_cases)
    case 1
    with "1.prems"(2) show ?thesis by simp
  next
    case (2 m)
    from play_round_names [OF 2(2)] "1.prems"(2) have "name (p1 m) = name (p2 m)" by simp
    from "1.IH" [OF 2(1) 2(2) refl 2(3) this] show ?thesis .
  qed
qed

lemma shared_early_end:
  "name (p1 g) = name (p2 g) \<Longrightarrow> score g (name (p1 g)) = Some v \<Longrightarrow> early_end g = (9 \<le> v)"
  by (auto simp: early_end_def early_termination_def)

lemma shared_loop_cond:
  "name (p1 g) = name (p2 g) \<Longrightarrow> score g (name (p1 g)) = Some v \<Longrightarrow>
     loop_cond g = Inr (round_num g < 16 \<and> v < 9)"
  by (auto simp: loop_cond_def getitem_def bind_e_def early_termination_def)

lemma shared_loop:
  "game_loop g = Some (Inr g') \<Longrightarrow> name (p1 g) = name (p2 g) \<Longrightarrow>
     score g (name (p1 g)) = Some (round_num g) \<Longrightarrow> round_num g \<le> 9 \<Longrightarrow>
     round_num g' = 9 \<and> score g' (name (p1 g')) = Some 9"
proof (induction g rule: game_loop.induct)
  case (1 g)
  note c = shared_loop_cond [OF "1.prems"(2,3)]
  show ?case
  proof (cases "round_num g = 9")
    case True
    with c have "loop_cond g = Inr False" by simp
    with "1.prems"(1) have "g' = g"
      by (subst (asm) game_loop_unfold) simp
    with True "1.prems"(3) show ?thesis by simp
  next
    case False
    with "1.prems"(4) c have t: "loop_cond g = Inr True" by simp
    with "1.prems"(1) obtain m where m: "play_round g = Some (Inr m)" "game_loop m = Some (Inr g')"
      by (subst (asm) game_loop_unfold) (auto simp: bind_r_Inr)
    from shared_round [OF "1.prems"(2,3) m(1)] play_round_round_num [OF m(1)]
    have i: "name (p1 m) = name (p2 m)" "score m (name (p1 m)) = Some (round_num m)"
      by auto
    from play_round_round_num [OF m(1)] False "1.prems"(4) have "round_num m \<le> 9" by simp
    from "1.IH" [of True m, OF _ _ m(1) m(2) i this] t show ?thesis by simp
  qed
qed

lemma game_setup_names:
  assumes "stdin t 0 = Some l1" and "stdin t (Suc 0) = Some l2"
    and "game_setup shuffle coin t = Inr g"
  shows "name (p1 g) = (if strip l1 \<noteq> [] then strip l1 else ''Player 1'')
         \<and> name (p2 g) = (if strip l2 \<noteq> [] then strip l2 else ''Player 2'')
         \<and> score g = (Map.empty(name (p1 g) \<mapsto> 0))(name (p2 g) \<mapsto> 0)
         \<and> round_num g = 0 \<and> deals_done g = 0"
  using assms
  by (auto simp: game_setup_def Let_def bind_e_Inr input_def print_def split: option.splits)

subsection \<open>The set-up succeeds\<close>

lemma deal_ok:
  "n \<le> length cards \<Longrightarrow> \<exists>d r. deal n cards = Inr (d, r) \<and> length r = length cards - n"
proof (induction n arbitrary: cards)
  case 0
  then show ?case by simp
next
  case (Suc n)
  then have ne: "cards \<noteq> []" and "n \<le> length (butlast cards)" by auto
  from Suc.IH [OF this(2)] obtain d r where
    "deal n (butlast cards) = Inr (d, r)" "length r = length (butlast cards) - n" by blast
  with ne show ?case by (simp add: bind_e_def)
qed

lemma map_e_Inr:
  "(\<And>x. x \<in> set xs \<Longrightarrow> \<exists>y. f x = Inr y) \<Longrightarrow>
     \<exists>ys. map_e f xs = Inr ys \<and> length ys = length xs"
proof (induction xs)
  case Nil
  then show ?case by simp
next
  case (Cons x xs)
  then obtain y ys where "f x = Inr y" "map_e f xs = Inr ys" "length ys = length xs"
    by (metis list.set_intros(1,2))
  then show ?case by (simp add: bind_e_def)
qed

lemma VALUE_MAP_RANKS: "r \<in> set RANKS \<Longrightarrow> \<exists>v. VALUE_MAP r = Some v"
  by (auto simp: VALUE_MAP_unfold RANKS_def)

lemma Deck_init_ok: "\<exists>cards. Deck_init shuffle = Inr (shuffle cards) \<and> length cards = 48"
proof -
  let ?pairs = "concat (map (\<lambda>s. map (\<lambda>r. (s, r)) RANKS) SUITS)"
  have "\<exists>y. (\<lambda>(s, r). Card_init s r) x = Inr y" if "x \<in> set ?pairs" for x
  proof -
    from that have "snd x \<in> set RANKS" by auto
    from VALUE_MAP_RANKS [OF this] show ?thesis
      by (cases x) (auto simp: Card_init_def)
  qed
  from map_e_Inr [of ?pairs "\<lambda>(s, r). Card_init s r", OF this]
  obtain ys where ys: "map_e (\<lambda>(s, r). Card_init s r) ?pairs = Inr ys" "length ys = length ?pairs"
    by blast
  have "length ?pairs = 48" by (simp add: SUITS_def RANKS_def)
  with ys show ?thesis by (auto simp: Deck_init_def bind_e_def)
qed

lemma game_setup_ok:
  assumes "stdin t 0 = Some l1" and "stdin t (Suc 0) = Some l2"
    and "\<And>xs. length (shuffle xs) = length xs"
  shows "\<exists>g. game_setup shuffle coin t = Inr g"
proof -
  from Deck_init_ok [of shuffle] obtain cards where
    d: "Deck_init shuffle = Inr (shuffle cards)" "length cards = 48" by blast
  with assms(3) have l: "length (shuffle cards) = 48" by simp
  from deal_ok [of 8 "shuffle cards"] l obtain h1 d1 where
    d1: "deal 8 (shuffle cards) = Inr (h1, d1)" "length d1 = 40" by auto
  from deal_ok [of 8 d1] d1(2) obtain h2 d2 where
    d2: "deal 8 d1 = Inr (h2, d2)" by auto
  from assms(1,2) d(1) d1(1) d2 show ?thesis
    by (simp add: game_setup_def Let_def bind_e_def input_def print_def)
qed

subsection \<open>The example round\<close>

lemma lines_of_Cons [simp]:
  "lines_of (l # ls) 0 = Some l" "(\<lambda>n. lines_of (l # ls) (Suc n)) = lines_of ls"
  by (auto simp: lines_of_def)

lemma isdigit_1 [simp]: "isdigit ''1''" "int_of_str ''1'' = 1"
  by (simp_all add: isdigit_def digit_char_def int_of_str_def)

lemmas round_defs =
  play_round_def play_cards_def get_lead_card_def get_follow_card_def
  prompt_card_choice.simps print_choices_def print_def input_def player_of_def set_hand_def
  list_remove_def determine_winner_def getitem_def reveal_def draw_def redeal_def show_score_def
  bind_r_def bind_e_def Card_str_def str_int_def arrow_def

lemma late_game_round: "play_round late_game = Some (Inr late_game_end)"
  by (simp add: late_game_def late_game_end_def round_defs)

lemma twins_round: "play_round twins = Some (Inr twins_end)"
  by (simp add: twins_def twins_end_def round_defs)

lemma four_each_redeal: "redeal four_each = Inr four_each_end"
  by (simp add: four_each_def four_each_end_def redeal_def print_def bind_e_def
        eval_nat_numeral)

lemma twins_loop: "game_loop twins = Some (Inr twins_end)"
proof -
  have a: "loop_cond twins = Inr True"
    by (simp add: loop_cond_def twins_def getitem_def bind_e_def early_termination_def)
  have b: "loop_cond twins_end = Inr False"
    by (simp add: loop_cond_def twins_end_def getitem_def bind_e_def early_termination_def)
  show ?thesis
    by (subst game_loop_unfold, simp add: a twins_round bind_r_def,
        subst game_loop_unfold, simp add: b)
qed

lemma strip_Sam: "strip ''Sam'' = ''Sam''" "strip '' Sam '' = ''Sam''"
  by (simp_all add: strip_def isspace_def)

subsection \<open>More example runs\<close>

lemma late_game_loop: "game_loop late_game = Some (Inr late_game_end)"
proof -
  have a: "loop_cond late_game = Inr True"
    by (simp add: loop_cond_def late_game_def getitem_def bind_e_def early_termination_def)
  have b: "loop_cond late_game_end = Inr False"
    by (simp add: loop_cond_def late_game_end_def)
  show ?thesis
    by (subst game_loop_unfold, simp add: a late_game_round bind_r_def,
        subst game_loop_unfold, simp add: b)
qed

lemma late_game_trace: "game_trace late_game = [late_game, late_game_end]"
proof -
  have a: "loop_cond late_game = Inr True"
    by (simp add: loop_cond_def late_game_def getitem_def bind_e_def early_termination_def)
  have b: "loop_cond late_game_end = Inr False"
    by (simp add: loop_cond_def late_game_end_def)
  show ?thesis
    by (subst game_trace_unfold, simp add: a late_game_round,
        subst game_trace_unfold, simp add: b)
qed

lemma isdigit_2 [simp]: "isdigit ''2''" "int_of_str ''2'' = 2"
  by (simp_all add: isdigit_def digit_char_def int_of_str_def)

lemma early_game_round: "play_round early_game = Some (Inr early_game_end)"
  by (simp add: early_game_def early_game_end_def round_defs)

lemma early_game_loop: "game_loop early_game = Some (Inr early_game_end)"
proof -
  have a: "loop_cond early_game = Inr True"
    by (simp add: loop_cond_def early_game_def getitem_def bind_e_def early_termination_def)
  have b: "loop_cond early_game_end = Inr False"
    by (simp add: loop_cond_def early_game_end_def getitem_def bind_e_def
          early_termination_def)
  show ?thesis
    by (subst game_loop_unfold, simp add: a early_game_round bind_r_def,
        subst game_loop_unfold, simp add: b)
qed

lemma early_game_trace: "game_trace early_game = [early_game, early_game_end]"
proof -
  have a: "loop_cond early_game = Inr True"
    by (simp add: loop_cond_def early_game_def getitem_def bind_e_def early_termination_def)
  have b: "loop_cond early_game_end = Inr False"
    by (simp add: loop_cond_def early_game_end_def getitem_def bind_e_def
          early_termination_def)
  show ?thesis
    by (subst game_trace_unfold, simp add: a early_game_round,
        subst game_trace_unfold, simp add: b)
qed

lemma early_end_iff:
  "early_end g \<longleftrightarrow>
     (\<exists>a b. score g (name (p1 g)) = Some a \<and> score g (name (p2 g)) = Some b
        \<and> ((9 \<le> a \<and> 1 \<le> b) \<or> (9 \<le> b \<and> 1 \<le> a)))"
  by (auto simp: early_end_def early_termination_def split: option.splits)

lemma game_loop_None:
  "game_loop g = None \<Longrightarrow>
     loop_cond (last (game_trace g)) = Inr True \<and> play_round (last (game_trace g)) = None"
proof (induction g rule: game_loop.induct)
  case (1 g)
  from "1.prems" have c: "loop_cond g = Inr True"
    by (subst (asm) game_loop_unfold) (auto split: sum.splits if_splits)
  with "1.prems" have b: "bind_r (play_round g) game_loop = None"
    by (subst (asm) game_loop_unfold) simp
  show ?case
  proof (cases "play_round g")
    case None
    with c have "game_trace g = [g]" by (subst game_trace_unfold) simp
    with c None show ?thesis by simp
  next
    case (Some r)
    with b obtain m where m: "play_round g = Some (Inr m)" "game_loop m = None"
      by (cases r) (auto simp: bind_r_def)
    have "loop_cond (last (game_trace m)) = Inr True \<and> play_round (last (game_trace m)) = None"
      by (rule "1.IH" [of True m]) (use c m in simp_all)
    moreover from c m have "last (game_trace g) = last (game_trace m)"
      by (subst game_trace_unfold) simp
    ultimately show ?thesis by simp
  qed
qed

lemma prompt_card_choice_mem:
  assumes "prompt_card_choice pl choices t = Some (Inr (c, t'))"
  shows "c \<in> set choices"
  by (rule prompt_card_choice.raw_induct
      [where P = "\<lambda>pl choices t r. \<forall>c t'. r = Inr (c, t') \<longrightarrow> c \<in> set choices",
        OF _ assms, rule_format])
    (auto simp: bind_r_def bind_e_def input_def Let_def
      split: sum.splits option.splits if_splits prod.splits)

lemma play_cards_deck: "play_cards g = Some (Inr g') \<Longrightarrow> deck g' = deck g"
  by (auto simp: play_cards_def bind_r_Inr bind_e_Inr Let_def split: if_splits)

lemma bob_follows:
  "get_follow_card bob ''Hearts'' bob_asked
     = Some (Inr (\<lparr>suit = ''Hearts'', rank = ''8'', cvalue = 8\<rparr>, bob_answered))"
  by (simp add: bob_def bob_asked_def bob_answered_def round_defs)

lemma empty_deck_round: "play_round empty_deck = Some (Inr empty_deck_end)"
  by (simp add: empty_deck_def empty_deck_end_def late_game_def late_game_end_def round_defs)

lemma moon_over: "game_over moon = Inr moon_end"
  by (simp add: moon_def moon_end_def game_over_def verdict_def getitem_def bind_e_def
        print_def str_int_def arrow_def)

subsection \<open>The end of the game\<close>

text \<open>
  C5. The test of the loop is made before each round, on the round counter and on the two
  scores of that moment; the early-termination predicate of the code is
  \<open>(s1 \<ge> 9 \<and> s2 \<ge> 1) \<or> (s2 \<ge> 9 \<and> s1 \<ge> 1)\<close>. Where both scores are in the
  dictionary, the loop stops in the state \<open>g\<close> exactly when the counter has reached 16
  or \<open>(s1 \<ge> 9 \<and> s2 \<ge> 1) \<or> (s2 \<ge> 9 \<and> s1 \<ge> 1)\<close> holds of the scores of
  \<open>g\<close>; otherwise a whole round is played before the next test. The state in which the
  loop stops has the counter at 16 or scores of which that formula holds.
\<close>

theorem game_over_condition:
  assumes "score g (name (p1 g)) = Some s1" and "score g (name (p2 g)) = Some s2"
    and "round_num g \<le> 16"
  shows "early_termination s1 s2 = ((9 \<le> s1 \<and> 1 \<le> s2) \<or> (9 \<le> s2 \<and> 1 \<le> s1))
         \<and> game_loop g =
             (if round_num g = 16 \<or> (9 \<le> s1 \<and> 1 \<le> s2) \<or> (9 \<le> s2 \<and> 1 \<le> s1)
              then Some (Inr g)
              else bind_r (play_round g) game_loop)
         \<and> (game_loop g = Some (Inr g))
             = (round_num g = 16 \<or> (9 \<le> s1 \<and> 1 \<le> s2) \<or> (9 \<le> s2 \<and> 1 \<le> s1))
         \<and> (\<forall>g'. game_loop g = Some (Inr g') \<longrightarrow>
               round_num g' = 16
               \<or> (\<exists>a b. score g' (name (p1 g')) = Some a \<and> score g' (name (p2 g')) = Some b
                     \<and> ((9 \<le> a \<and> 1 \<le> b) \<or> (9 \<le> b \<and> 1 \<le> a))))"
proof (intro conjI allI impI)
  show et: "early_termination s1 s2 = ((9 \<le> s1 \<and> 1 \<le> s2) \<or> (9 \<le> s2 \<and> 1 \<le> s1))"
    by (simp add: early_termination_def)
  have cond: "loop_cond g = Inr (\<not> (round_num g = 16 \<or> early_termination s1 s2))"
    using assms by (auto simp: loop_cond_def getitem_def bind_e_def)
  have "game_loop g =
           (if round_num g = 16 \<or> early_termination s1 s2 then Some (Inr g)
            else bind_r (play_round g) game_loop)"
    using cond by (subst game_loop_unfold) simp
  then show unfold: "game_loop g =
             (if round_num g = 16 \<or> (9 \<le> s1 \<and> 1 \<le> s2) \<or> (9 \<le> s2 \<and> 1 \<le> s1)
              then Some (Inr g)
              else bind_r (play_round g) game_loop)"
    unfolding et .
  have up: "round_num g' \<le> 16" "loop_cond g' = Inr False"
    if "game_loop g = Some (Inr g')" for g'
  proof -
    from game_loop_final [OF that] have fin: "loop_cond g' = Inr False" "g' = last (game_trace g)"
      by blast+
    then have "g' = game_trace g ! (length (game_trace g) - 1)"
      by (simp add: last_conv_nth)
    then have r: "round_num g' = round_num g + int (length (game_trace g) - 1)"
      using game_trace_round_num [of "length (game_trace g) - 1" g] by simp
    from r game_trace_length [of g] assms(3) show "round_num g' \<le> 16" by linarith
    from fin show "loop_cond g' = Inr False" by simp
  qed
  show "(game_loop g = Some (Inr g))
          = (round_num g = 16 \<or> (9 \<le> s1 \<and> 1 \<le> s2) \<or> (9 \<le> s2 \<and> 1 \<le> s1))"
  proof (cases "round_num g = 16 \<or> (9 \<le> s1 \<and> 1 \<le> s2) \<or> (9 \<le> s2 \<and> 1 \<le> s1)")
    case True
    with unfold show ?thesis by simp
  next
    case False
    have "game_loop g \<noteq> Some (Inr g)"
    proof
      assume a: "game_loop g = Some (Inr g)"
      from unfold False have "game_loop g = bind_r (play_round g) game_loop" by simp
      with a have "bind_r (play_round g) game_loop = Some (Inr g)" by simp
      then obtain m where m: "play_round g = Some (Inr m)" "game_loop m = Some (Inr g)"
        by (auto simp: bind_r_Inr)
      from game_loop_final [OF m(2)] have "g = game_trace m ! (length (game_trace m) - 1)"
        by (simp add: last_conv_nth)
      then have "round_num g = round_num m + int (length (game_trace m) - 1)"
        using game_trace_round_num [of "length (game_trace m) - 1" m] by simp
      with play_round_round_num [OF m(1)] show False by simp
    qed
    with False show ?thesis by simp
  qed
  fix g'
  assume "game_loop g = Some (Inr g')"
  from up [OF this] have "round_num g' = 16 \<or> early_end g'"
    by (auto simp: loop_cond_False_iff)
  then show "round_num g' = 16
               \<or> (\<exists>a b. score g' (name (p1 g')) = Some a \<and> score g' (name (p2 g')) = Some b
                     \<and> ((9 \<le> a \<and> 1 \<le> b) \<or> (9 \<le> b \<and> 1 \<le> a)))"
    unfolding early_end_iff .
qed

theorem game_over_condition_witness:
  "score early_game_end (name (p1 early_game_end)) = Some 9
   \<and> score early_game_end (name (p2 early_game_end)) = Some 2
   \<and> round_num early_game_end = 11
   \<and> early_termination 9 2
   \<and> game_loop early_game_end = Some (Inr early_game_end)
   \<and> score early_game (name (p1 early_game)) = Some 8
   \<and> score early_game (name (p2 early_game)) = Some 2
   \<and> round_num early_game = 10
   \<and> game_loop early_game = bind_r (play_round early_game) game_loop
   \<and> game_loop early_game \<noteq> Some (Inr early_game)
   \<and> game_loop early_game = Some (Inr early_game_end)"
proof -
  have h: "score early_game_end (name (p1 early_game_end)) = Some 9"
    "score early_game_end (name (p2 early_game_end)) = Some 2"
    and r: "round_num early_game_end = 11"
    by (simp_all add: early_game_end_def)
  from r have r': "round_num early_game_end \<le> 16" by simp
  have k: "score early_game (name (p1 early_game)) = Some 8"
    "score early_game (name (p2 early_game)) = Some 2"
    and q: "round_num early_game = 10"
    by (simp_all add: early_game_def)
  from q have q': "round_num early_game \<le> 16" by simp
  have a: "early_termination 9 2"
    using game_over_condition [OF h r', THEN conjunct1] by simp
  have b: "game_loop early_game_end = Some (Inr early_game_end)"
    using game_over_condition [OF h r', THEN conjunct2, THEN conjunct2, THEN conjunct1]
    by simp
  have c: "game_loop early_game = bind_r (play_round early_game) game_loop"
    using game_over_condition [OF k q', THEN conjunct2, THEN conjunct1] q by simp
  have d: "game_loop early_game \<noteq> Some (Inr early_game)"
    using game_over_condition [OF k q', THEN conjunct2, THEN conjunct2, THEN conjunct1] q
    by simp
  from h r a b k q c d early_game_loop show ?thesis by blast
qed

text \<open>
  C6, as the code has it. From a state with the round counter between 0 and 16 the loop
  runs at most \<open>16 - round_num g\<close> rounds, so at most 16 from the start of a game: the
  trace holds the state before the first round and the state after each completed round,
  and the counter grows by one from each to the next. On an input that ends the loop ends,
  by returning or with an exception; the loop itself never runs on for ever: when it does
  not end, a prompt of the last round begun is never answered. When the loop returns, it
  has played fewer rounds than the counter allows (the counter is below 16) exactly when
  \<open>(s1 \<ge> 9 \<and> s2 \<ge> 1) \<or> (s2 \<ge> 9 \<and> s1 \<ge> 1)\<close> held of the scores at the test before a
  round, that is in a state of the trace with the counter below 16. After the sixteenth
  round the counter alone stops the loop, whatever the scores.
\<close>

theorem game_loop_bounded:
  assumes "0 \<le> round_num g" and "round_num g \<le> 16"
  shows "int (length (game_trace g)) - 1 \<le> 16 - round_num g
         \<and> (\<forall>i < length (game_trace g). round_num (game_trace g ! i) = round_num g + int i)
         \<and> ((\<exists>n. stdin (tty g) n = None) \<longrightarrow> (\<exists>r. game_loop g = Some r))
         \<and> (game_loop g = None \<longrightarrow> play_round (last (game_trace g)) = None)
         \<and> (\<forall>g'. game_loop g = Some (Inr g') \<longrightarrow>
               g' = last (game_trace g)
               \<and> round_num g' = round_num g + (int (length (game_trace g)) - 1)
               \<and> round_num g' \<le> 16
               \<and> ((round_num g' < 16) =
                    (\<exists>s \<in> set (game_trace g). round_num s < 16
                       \<and> (\<exists>a b. score s (name (p1 s)) = Some a \<and> score s (name (p2 s)) = Some b
                             \<and> ((9 \<le> a \<and> 1 \<le> b) \<or> (9 \<le> b \<and> 1 \<le> a))))))"
proof (intro conjI allI impI)
  from game_trace_length [of g] assms
  show len: "int (length (game_trace g)) - 1 \<le> 16 - round_num g" by linarith
  show "\<And>i. i < length (game_trace g) \<Longrightarrow> round_num (game_trace g ! i) = round_num g + int i"
    by (rule game_trace_round_num)
  show "\<exists>n. stdin (tty g) n = None \<Longrightarrow> \<exists>r. game_loop g = Some r"
    using game_loop_returns by blast
  show "game_loop g = None \<Longrightarrow> play_round (last (game_trace g)) = None"
    using game_loop_None by blast
  fix g'
  assume run: "game_loop g = Some (Inr g')"
  from game_loop_final [OF run]
  have stop: "loop_cond g' = Inr False" and last: "g' = last (game_trace g)" by blast+
  show "g' = last (game_trace g)" by (rule last)
  from last have "g' = game_trace g ! (length (game_trace g) - 1)"
    by (simp add: last_conv_nth)
  then have "round_num g' = round_num g + int (length (game_trace g) - 1)"
    using game_trace_round_num [of "length (game_trace g) - 1" g] by simp
  moreover have "length (game_trace g) \<noteq> 0" by simp
  ultimately show rn: "round_num g' = round_num g + (int (length (game_trace g)) - 1)"
    by linarith
  from rn len show "round_num g' \<le> 16" by linarith
  have "(round_num g' < 16) = (\<exists>s \<in> set (game_trace g). round_num s < 16 \<and> early_end s)"
  proof
    assume "round_num g' < 16"
    with stop have "early_end g'" by (simp add: loop_cond_False_iff)
    moreover from last have "g' \<in> set (game_trace g)" by simp
    ultimately show "\<exists>s \<in> set (game_trace g). round_num s < 16 \<and> early_end s"
      using \<open>round_num g' < 16\<close> by blast
  next
    assume "\<exists>s \<in> set (game_trace g). round_num s < 16 \<and> early_end s"
    then obtain s where s: "s \<in> set (game_trace g)" "round_num s < 16" "early_end s" by blast
    then have "loop_cond s = Inr False" by (simp add: loop_cond_False_iff)
    then have "loop_cond s \<noteq> Inr True" by simp
    from game_trace_stop [OF s(1) this] last have "s = g'" by simp
    with s show "round_num g' < 16" by simp
  qed
  then show "(round_num g' < 16) =
                    (\<exists>s \<in> set (game_trace g). round_num s < 16
                       \<and> (\<exists>a b. score s (name (p1 s)) = Some a \<and> score s (name (p2 s)) = Some b
                             \<and> ((9 \<le> a \<and> 1 \<le> b) \<or> (9 \<le> b \<and> 1 \<le> a))))"
    unfolding early_end_iff .
qed

theorem game_loop_bounded_witness:
  "0 \<le> round_num early_game \<and> round_num early_game \<le> 16
   \<and> stdin (tty early_game) 2 = None
   \<and> game_loop early_game = Some (Inr early_game_end)
   \<and> early_game_end = last (game_trace early_game)
   \<and> round_num early_game_end = round_num early_game + (int (length (game_trace early_game)) - 1)
   \<and> round_num early_game_end = 11
   \<and> length (game_trace early_game) = 2
   \<and> early_game_end \<in> set (game_trace early_game)
   \<and> score early_game_end (name (p1 early_game_end)) = Some 9
   \<and> score early_game_end (name (p2 early_game_end)) = Some 2"
proof -
  have h: "0 \<le> round_num early_game" "round_num early_game \<le> 16"
    by (simp_all add: early_game_def)
  have e: "stdin (tty early_game) 2 = None"
    by (simp add: early_game_def lines_of_def)
  have r: "round_num early_game_end = 11"
    "score early_game_end (name (p1 early_game_end)) = Some 9"
    "score early_game_end (name (p2 early_game_end)) = Some 2"
    by (simp_all add: early_game_end_def)
  note t = game_loop_bounded [OF h, THEN conjunct2, THEN conjunct2, THEN conjunct2,
      THEN conjunct2, THEN spec, of early_game_end, THEN mp, OF early_game_loop]
  from t have a: "early_game_end = last (game_trace early_game)"
    and b: "round_num early_game_end
              = round_num early_game + (int (length (game_trace early_game)) - 1)"
    by blast+
  have l: "length (game_trace early_game) = 2"
    and m: "early_game_end \<in> set (game_trace early_game)"
    by (simp_all add: early_game_trace)
  from h e early_game_loop a b r l m show ?thesis by blast
qed

text \<open>
  C6, as the specification words it, fails. From the state before the sixteenth round with
  the scores 8 and 7 the loop plays that round and returns with the counter at 16 and the
  scores 9 and 7: the early-termination predicate holds at that round boundary, and yet
  all sixteen rounds have been played.
\<close>

theorem game_loop_sixteen_counterexample:
  "round_num late_game = 15
   \<and> game_loop late_game = Some (Inr late_game_end)
   \<and> game_trace late_game = [late_game, late_game_end]
   \<and> round_num late_game_end = 16
   \<and> score late_game_end (name (p1 late_game_end)) = Some 9
   \<and> score late_game_end (name (p2 late_game_end)) = Some 7
   \<and> early_termination 9 7
   \<and> early_end late_game_end
   \<and> \<not> round_num late_game_end < 16"
proof -
  have "round_num late_game = 15" by (simp add: late_game_def)
  moreover have "round_num late_game_end = 16"
    "score late_game_end (name (p1 late_game_end)) = Some 9"
    "score late_game_end (name (p2 late_game_end)) = Some 7"
    by (simp_all add: late_game_end_def)
  moreover have "early_termination 9 7" by (simp add: early_termination_def)
  moreover have "early_end late_game_end"
    by (simp add: early_end_def late_game_end_def early_termination_def)
  ultimately show ?thesis using late_game_loop late_game_trace by simp
qed

text \<open>
  C7. The re-deal step changes the state only when both hands hold exactly four cards and
  the counter of re-deals is below 2; it then gives each player the next four cards from
  the end of the deck and adds one to the counter. In a round the step is taken on the
  state after both cards are played and one card is revealed: the counter grows by one
  when the condition holds there and stays as it is otherwise. From a counter of 0 the
  counter stays between 0 and 2 in every state of the game, so at most two re-deals
  occur.
\<close>

theorem redeal_rule:
  "(redeal g = Inr g' \<longrightarrow>
      (if length (hand (p1 g)) = 4 \<and> length (hand (p2 g)) = 4 \<and> deals_done g < 2
       then deals_done g' = deals_done g + 1
            \<and> (\<exists>c1 c2. length c1 = 4 \<and> length c2 = 4
                  \<and> hand (p1 g') = hand (p1 g) @ c1 \<and> hand (p2 g') = hand (p2 g) @ c2
                  \<and> deck g = deck g' @ rev c2 @ rev c1)
       else g' = g))
   \<and> (play_round g = Some (Inr g') \<longrightarrow>
        (\<exists>m. play_cards g = Some (Inr m) \<and> deals_done m = deals_done g
            \<and> (if length (hand (p1 (reveal m))) = 4 \<and> length (hand (p2 (reveal m))) = 4
                    \<and> deals_done g < 2
                then deals_done g' = deals_done g + 1
                     \<and> length (hand (p1 g')) = 8 \<and> length (hand (p2 g')) = 8
                else deals_done g' = deals_done g
                     \<and> hand (p1 g') = hand (p1 (reveal m))
                     \<and> hand (p2 g') = hand (p2 (reveal m)))))
   \<and> (0 \<le> deals_done g \<and> deals_done g \<le> 2 \<longrightarrow>
        (\<forall>s \<in> set (game_trace g). deals_done g \<le> deals_done s \<and> deals_done s \<le> 2))"
proof (intro conjI impI ballI)
  assume r: "redeal g = Inr g'"
  show "if length (hand (p1 g)) = 4 \<and> length (hand (p2 g)) = 4 \<and> deals_done g < 2
       then deals_done g' = deals_done g + 1
            \<and> (\<exists>c1 c2. length c1 = 4 \<and> length c2 = 4
                  \<and> hand (p1 g') = hand (p1 g) @ c1 \<and> hand (p2 g') = hand (p2 g) @ c2
                  \<and> deck g = deck g' @ rev c2 @ rev c1)
       else g' = g"
  proof (cases "length (hand (p1 g)) = 4 \<and> length (hand (p2 g)) = 4 \<and> deals_done g < 2")
    case True
    from redeal_fires [OF r True] True show ?thesis by simp
  next
    case False
    from redeal_idle [OF False] r False show ?thesis by simp
  qed
next
  assume "play_round g = Some (Inr g')"
  from play_round_steps [OF this] obtain m r where
    s: "play_cards g = Some (Inr m)" "redeal (reveal m) = Inr r" "show_score r = Inr g'"
    by blast
  have m: "deals_done m = deals_done g"
    using play_cards_deals_done [OF s(1)] by simp
  have g': "deals_done g' = deals_done r" "p1 g' = p1 r" "p2 g' = p2 r"
    using show_score_fields [OF s(3)] by simp_all
  have "if length (hand (p1 (reveal m))) = 4 \<and> length (hand (p2 (reveal m))) = 4
                    \<and> deals_done g < 2
        then deals_done g' = deals_done g + 1
             \<and> length (hand (p1 g')) = 8 \<and> length (hand (p2 g')) = 8
        else deals_done g' = deals_done g
             \<and> hand (p1 g') = hand (p1 (reveal m))
             \<and> hand (p2 g') = hand (p2 (reveal m))"
  proof (cases "length (hand (p1 (reveal m))) = 4 \<and> length (hand (p2 (reveal m))) = 4
                 \<and> deals_done (reveal m) < 2")
    case True
    from redeal_fires [OF s(2) True] m g' True show ?thesis by auto
  next
    case False
    from redeal_idle [OF False] s(2) m g' False show ?thesis by auto
  qed
  with s(1) m show "\<exists>m. play_cards g = Some (Inr m) \<and> deals_done m = deals_done g
            \<and> (if length (hand (p1 (reveal m))) = 4 \<and> length (hand (p2 (reveal m))) = 4
                    \<and> deals_done g < 2
                then deals_done g' = deals_done g + 1
                     \<and> length (hand (p1 g')) = 8 \<and> length (hand (p2 g')) = 8
                else deals_done g' = deals_done g
                     \<and> hand (p1 g') = hand (p1 (reveal m))
                     \<and> hand (p2 g') = hand (p2 (reveal m)))"
    by blast
next
  fix s
  assume "0 \<le> deals_done g \<and> deals_done g \<le> 2" and "s \<in> set (game_trace g)"
  then show "deals_done g \<le> deals_done s" "deals_done s \<le> 2"
    using game_trace_deals_done [of s g] by simp_all
qed

theorem redeal_rule_witness:
  "redeal four_each = Inr four_each_end
   \<and> length (hand (p1 four_each)) = 4 \<and> length (hand (p2 four_each)) = 4
   \<and> deals_done four_each < 2
   \<and> deals_done four_each_end = deals_done four_each + 1
   \<and> play_round late_game = Some (Inr late_game_end)
   \<and> 0 \<le> deals_done late_game \<and> deals_done late_game \<le> 2
   \<and> deals_done late_game_end = deals_done late_game
   \<and> late_game_end \<in> set (game_trace late_game)
   \<and> deals_done late_game_end \<le> 2"
proof -
  have c: "length (hand (p1 four_each)) = 4 \<and> length (hand (p2 four_each)) = 4
           \<and> deals_done four_each < 2"
    by (simp add: four_each_def)
  have a: "deals_done four_each_end = deals_done four_each + 1"
    using redeal_rule [of four_each four_each_end, THEN conjunct1] four_each_redeal c
    by simp
  have d: "0 \<le> deals_done late_game \<and> deals_done late_game \<le> 2"
    by (simp add: late_game_def)
  have e: "deals_done late_game_end = deals_done late_game"
    by (simp add: late_game_def late_game_end_def)
  have b: "\<forall>s \<in> set (game_trace late_game). deals_done s \<le> 2"
    using redeal_rule [of late_game late_game_end, THEN conjunct2, THEN conjunct2] d
    by blast
  have m: "late_game_end \<in> set (game_trace late_game)"
    by (simp only: late_game_trace list.set insert_iff) blast
  from b m have f: "deals_done late_game_end \<le> 2" by blast
  show ?thesis
    by (intro conjI four_each_redeal c [THEN conjunct1] c [THEN conjunct2, THEN conjunct1]
          c [THEN conjunct2, THEN conjunct2] a late_game_round d [THEN conjunct1]
          d [THEN conjunct2] e m f)
qed

text \<open>
  C10. When both players have the same name, the dictionary of scores built at the set-up
  has that name as its only key. From such a state the two scores read in every state of
  the game are equal, each round adds one to the shared entry whoever wins the trick, and
  the early-termination predicate holds exactly when the shared entry is at least 9: a
  game that starts with the entry and the round counter at 0 ends after exactly nine
  rounds.
\<close>

theorem shared_score_entry:
  "(stdin t 0 = Some l1 \<and> stdin t (Suc 0) = Some l2 \<and> strip l1 = strip l2 \<and> strip l1 \<noteq> []
      \<and> game_setup shuffle coin t = Inr g0 \<longrightarrow>
        name (p1 g0) = strip l1 \<and> name (p2 g0) = strip l1
        \<and> score g0 = [strip l1 \<mapsto> 0] \<and> dom (score g0) = {strip l1}
        \<and> round_num g0 = 0)
   \<and> (name (p1 g) = name (p2 g) \<longrightarrow>
        (\<forall>s \<in> set (game_trace g).
            name (p1 s) = name (p2 s) \<and> score s (name (p1 s)) = score s (name (p2 s)))
        \<and> (\<forall>v g'. score g (name (p1 g)) = Some v \<and> play_round g = Some (Inr g') \<longrightarrow>
               score g' (name (p1 g')) = Some (v + 1) \<and> score g' (name (p2 g')) = Some (v + 1))
        \<and> (\<forall>v. score g (name (p1 g)) = Some v \<longrightarrow> early_end g = (9 \<le> v))
        \<and> (\<forall>g'. score g (name (p1 g)) = Some (round_num g) \<and> round_num g \<le> 9
                \<and> game_loop g = Some (Inr g') \<longrightarrow>
               round_num g' = 9 \<and> score g' (name (p1 g')) = Some 9
               \<and> score g' (name (p2 g')) = Some 9))"
proof (intro conjI impI allI ballI)
  assume a: "stdin t 0 = Some l1 \<and> stdin t (Suc 0) = Some l2 \<and> strip l1 = strip l2
      \<and> strip l1 \<noteq> [] \<and> game_setup shuffle coin t = Inr g0"
  then have "stdin t 0 = Some l1" "stdin t (Suc 0) = Some l2"
    "game_setup shuffle coin t = Inr g0" by simp_all
  from game_setup_names [OF this] a
  have n: "name (p1 g0) = strip l1" "name (p2 g0) = strip l1"
    and s: "score g0 = (Map.empty(name (p1 g0) \<mapsto> 0))(name (p2 g0) \<mapsto> 0)"
    and r: "round_num g0 = 0"
    by auto
  show "name (p1 g0) = strip l1" "name (p2 g0) = strip l1" "round_num g0 = 0"
    by (rule n r)+
  from s n show sc: "score g0 = [strip l1 \<mapsto> 0]" by simp
  then show "dom (score g0) = {strip l1}" by simp
next
  fix s
  assume n: "name (p1 g) = name (p2 g)" and s: "s \<in> set (game_trace g)"
  from shared_trace [OF s n] show "name (p1 s) = name (p2 s)" .
  then show "score s (name (p1 s)) = score s (name (p2 s))" by simp
next
  fix v g'
  assume n: "name (p1 g) = name (p2 g)"
    and "score g (name (p1 g)) = Some v \<and> play_round g = Some (Inr g')"
  then have "score g (name (p1 g)) = Some v" "play_round g = Some (Inr g')" by simp_all
  from shared_round [OF n this]
  show "score g' (name (p1 g')) = Some (v + 1)" "score g' (name (p2 g')) = Some (v + 1)"
    by blast+
next
  fix v
  assume "name (p1 g) = name (p2 g)" "score g (name (p1 g)) = Some v"
  then show "early_end g = (9 \<le> v)" by (rule shared_early_end)
next
  fix g'
  assume n: "name (p1 g) = name (p2 g)"
    and "score g (name (p1 g)) = Some (round_num g) \<and> round_num g \<le> 9
                \<and> game_loop g = Some (Inr g')"
  then have h: "game_loop g = Some (Inr g')" "score g (name (p1 g)) = Some (round_num g)"
    "round_num g \<le> 9" by simp_all
  from shared_loop [OF h(1) n h(2,3)]
  show r: "round_num g' = 9" and s: "score g' (name (p1 g')) = Some 9" by blast+
  from game_loop_final [OF h(1)] have "g' \<in> set (game_trace g)"
    by (metis game_trace_not_Nil last_in_set)
  from shared_trace [OF this n] s show "score g' (name (p2 g')) = Some 9" by simp
qed

theorem shared_score_entry_witness:
  "(\<exists>g0. game_setup id True \<lparr>stdin = lines_of [''Sam'', '' Sam ''], stdout = []\<rparr> = Inr g0
         \<and> name (p1 g0) = ''Sam'' \<and> name (p2 g0) = ''Sam'' \<and> dom (score g0) = {''Sam''})
   \<and> name (p1 twins) = name (p2 twins)
   \<and> score twins (name (p1 twins)) = Some (round_num twins) \<and> round_num twins \<le> 9
   \<and> play_round twins = Some (Inr twins_end)
   \<and> game_loop twins = Some (Inr twins_end)
   \<and> round_num twins_end = 9
   \<and> score twins_end (name (p1 twins_end)) = Some 9
   \<and> score twins_end (name (p2 twins_end)) = Some 9
   \<and> early_end twins_end"
proof -
  let ?t = "\<lparr>stdin = lines_of [''Sam'', '' Sam ''], stdout = []\<rparr>"
  have l: "stdin ?t 0 = Some ''Sam''" "stdin ?t (Suc 0) = Some '' Sam ''"
    by (simp_all add: lines_of_def)
  have "\<exists>g0. game_setup id True ?t = Inr g0"
    by (rule game_setup_ok [OF l]) simp
  then obtain g0 where g0: "game_setup id True ?t = Inr g0" ..
  have n: "name (p1 twins) = name (p2 twins)"
    "score twins (name (p1 twins)) = Some (round_num twins)" "round_num twins \<le> 9"
    by (simp_all add: twins_def)
  have e: "name (p1 twins_end) = name (p2 twins_end)"
    "score twins_end (name (p1 twins_end)) = Some 9"
    by (simp_all add: twins_end_def)
  note th = shared_score_entry [of ?t "''Sam''" "'' Sam ''" id True g0 twins]
  note th' = shared_score_entry [of ?t "''Sam''" "'' Sam ''" id True g0 twins_end]
  have pre: "stdin ?t 0 = Some ''Sam'' \<and> stdin ?t (Suc 0) = Some '' Sam ''
      \<and> strip ''Sam'' = strip '' Sam '' \<and> strip ''Sam'' \<noteq> []
      \<and> game_setup id True ?t = Inr g0"
    unfolding strip_Sam by (intro conjI l g0 refl) simp
  from th [THEN conjunct1, THEN mp, OF pre]
  have a0: "name (p1 g0) = strip ''Sam'' \<and> name (p2 g0) = strip ''Sam''
        \<and> score g0 = [strip ''Sam'' \<mapsto> 0] \<and> dom (score g0) = {strip ''Sam''}
        \<and> round_num g0 = 0" .
  have a: "name (p1 g0) = ''Sam'' \<and> name (p2 g0) = ''Sam'' \<and> dom (score g0) = {''Sam''}"
    using a0 [THEN conjunct1] a0 [THEN conjunct2, THEN conjunct1]
      a0 [THEN conjunct2, THEN conjunct2, THEN conjunct2, THEN conjunct1]
    unfolding strip_Sam by (intro conjI)
  note loop = th [THEN conjunct2, THEN mp, OF n(1), THEN conjunct2, THEN conjunct2,
      THEN conjunct2, THEN spec, of twins_end, THEN mp]
  have b: "round_num twins_end = 9 \<and> score twins_end (name (p1 twins_end)) = Some 9
           \<and> score twins_end (name (p2 twins_end)) = Some 9"
    by (rule loop) (intro conjI n twins_loop)
  note ee = th' [THEN conjunct2, THEN mp, OF e(1), THEN conjunct2, THEN conjunct2,
      THEN conjunct1, THEN spec, of 9, THEN mp, OF e(2)]
  have c: "early_end twins_end" using ee by simp
  have x: "\<exists>g0. game_setup id True ?t = Inr g0
         \<and> name (p1 g0) = ''Sam'' \<and> name (p2 g0) = ''Sam'' \<and> dom (score g0) = {''Sam''}"
    by (rule exI [of _ g0]) (intro conjI g0 a [THEN conjunct1]
          a [THEN conjunct2, THEN conjunct1] a [THEN conjunct2, THEN conjunct2])
  show ?thesis
    by (intro conjI x n twins_round twins_loop b [THEN conjunct1]
          b [THEN conjunct2, THEN conjunct1] b [THEN conjunct2, THEN conjunct2] c)
qed

subsection \<open>Following suit\<close>

text \<open>
  C4. The follower chooses among the cards of the hand that have the lead suit when there
  is one, and among all the cards of the hand otherwise: the call is the prompt over that
  list, after one line of explanation. The card returned is one of that list; so it is in
  the hand, and it has the lead suit whenever a card of the hand has.
\<close>

theorem get_follow_card_follows_suit:
  "(\<exists>msg. get_follow_card pl lead_suit t =
       prompt_card_choice pl
         (if filter (\<lambda>c. suit c = lead_suit) (hand pl) \<noteq> []
          then filter (\<lambda>c. suit c = lead_suit) (hand pl) else hand pl)
         (print msg t))
   \<and> (get_follow_card pl lead_suit t = Some (Inr (c, t')) \<longrightarrow>
         c \<in> set (if filter (\<lambda>c. suit c = lead_suit) (hand pl) \<noteq> []
                   then filter (\<lambda>c. suit c = lead_suit) (hand pl) else hand pl)
         \<and> c \<in> set (hand pl)
         \<and> ((\<exists>x \<in> set (hand pl). suit x = lead_suit) \<longrightarrow> suit c = lead_suit))"
proof (intro conjI impI)
  show "\<exists>msg. get_follow_card pl lead_suit t =
       prompt_card_choice pl
         (if filter (\<lambda>c. suit c = lead_suit) (hand pl) \<noteq> []
          then filter (\<lambda>c. suit c = lead_suit) (hand pl) else hand pl)
         (print msg t)"
    unfolding get_follow_card_def Let_def
    by (cases "filter (\<lambda>c. suit c = lead_suit) (hand pl) = []") (simp_all, blast+)
  assume run: "get_follow_card pl lead_suit t = Some (Inr (c, t'))"
  then have "\<exists>u. prompt_card_choice pl
         (if filter (\<lambda>c. suit c = lead_suit) (hand pl) \<noteq> []
          then filter (\<lambda>c. suit c = lead_suit) (hand pl) else hand pl) u = Some (Inr (c, t'))"
    unfolding get_follow_card_def Let_def
    by (cases "filter (\<lambda>c. suit c = lead_suit) (hand pl) = []") (simp_all, blast+)
  then show m: "c \<in> set (if filter (\<lambda>c. suit c = lead_suit) (hand pl) \<noteq> []
                   then filter (\<lambda>c. suit c = lead_suit) (hand pl) else hand pl)"
    using prompt_card_choice_mem by blast
  then show "c \<in> set (hand pl)" by (auto split: if_splits)
  assume "\<exists>x \<in> set (hand pl). suit x = lead_suit"
  then have "filter (\<lambda>c. suit c = lead_suit) (hand pl) \<noteq> []"
    by (auto simp: filter_empty_conv)
  with m show "suit c = lead_suit" by simp
qed

theorem get_follow_card_follows_suit_witness:
  "get_follow_card bob ''Hearts'' bob_asked
     = Some (Inr (\<lparr>suit = ''Hearts'', rank = ''8'', cvalue = 8\<rparr>, bob_answered))
   \<and> hand bob = [\<lparr>suit = ''Spades'', rank = ''3'', cvalue = 3\<rparr>,
                  \<lparr>suit = ''Hearts'', rank = ''8'', cvalue = 8\<rparr>]
   \<and> filter (\<lambda>c. suit c = ''Hearts'') (hand bob) = [\<lparr>suit = ''Hearts'', rank = ''8'', cvalue = 8\<rparr>]
   \<and> \<lparr>suit = ''Hearts'', rank = ''8'', cvalue = 8\<rparr> \<in> set (hand bob)
   \<and> suit \<lparr>suit = ''Hearts'', rank = ''8'', cvalue = 8\<rparr> = ''Hearts''"
proof -
  note t = get_follow_card_follows_suit [of bob "''Hearts''" bob_asked
      "\<lparr>suit = ''Hearts'', rank = ''8'', cvalue = 8\<rparr>" bob_answered,
      THEN conjunct2, THEN mp, OF bob_follows]
  from t have a: "\<lparr>suit = ''Hearts'', rank = ''8'', cvalue = 8\<rparr> \<in> set (hand bob)"
    by blast
  have b: "hand bob = [\<lparr>suit = ''Spades'', rank = ''3'', cvalue = 3\<rparr>,
                  \<lparr>suit = ''Hearts'', rank = ''8'', cvalue = 8\<rparr>]"
    by (simp add: bob_def)
  have c: "filter (\<lambda>c. suit c = ''Hearts'') (hand bob)
             = [\<lparr>suit = ''Hearts'', rank = ''8'', cvalue = 8\<rparr>]"
    by (simp add: bob_def)
  from a b c bob_follows show ?thesis by simp
qed

subsection \<open>Drawing from the deck\<close>

text \<open>
  C8. On a deck that is not empty \<open>draw\<close> returns the last card and leaves the deck
  without it, one card shorter; on the empty deck it returns \<open>None\<close> and leaves the
  deck empty. The reveal of a round prints the card drawn; with the empty deck it changes
  nothing, and the round goes on with the re-deal test and the line of the scores as in
  any other round.
\<close>

theorem draw_and_reveal:
  "(cards \<noteq> [] \<longrightarrow>
      draw cards = (Some (last cards), butlast cards)
      \<and> cards = snd (draw cards) @ [last cards]
      \<and> length (snd (draw cards)) + 1 = length cards)
   \<and> draw [] = (None, [])
   \<and> (deck g \<noteq> [] \<longrightarrow>
        reveal g = g\<lparr>deck := butlast (deck g),
                     tty := print (''Revealed from deck: '' @ Card_str (last (deck g))) (tty g)\<rparr>)
   \<and> (deck g = [] \<longrightarrow>
        reveal g = g
        \<and> play_round g = bind_r (play_cards g) (\<lambda>g'. Some (bind_e (redeal g') show_score)))"
proof (intro conjI impI)
  assume "deck g = []"
  then show r: "reveal g = g" by (simp add: reveal_def draw_def)
  have "\<And>g'. play_cards g = Some (Inr g') \<Longrightarrow> reveal g' = g'"
    using play_cards_deck \<open>deck g = []\<close> by (simp add: reveal_def draw_def)
  then show "play_round g = bind_r (play_cards g) (\<lambda>g'. Some (bind_e (redeal g') show_score))"
    unfolding play_round_def by (intro bind_r_cong) simp_all
next
  assume "deck g \<noteq> []"
  then show "reveal g = g\<lparr>deck := butlast (deck g),
                     tty := print (''Revealed from deck: '' @ Card_str (last (deck g))) (tty g)\<rparr>"
    by (simp add: reveal_def draw_def)
qed (simp_all add: draw_def)

theorem draw_and_reveal_witness:
  "deck late_game = [\<lparr>suit = ''Hearts'', rank = ''2'', cvalue = 2\<rparr>]
   \<and> draw (deck late_game) = (Some \<lparr>suit = ''Hearts'', rank = ''2'', cvalue = 2\<rparr>, [])
   \<and> deck empty_deck = []
   \<and> draw (deck empty_deck) = (None, [])
   \<and> reveal empty_deck = empty_deck
   \<and> play_round empty_deck = Some (Inr empty_deck_end)
   \<and> bind_r (play_cards empty_deck) (\<lambda>g'. Some (bind_e (redeal g') show_score))
       = Some (Inr empty_deck_end)"
proof -
  have a: "deck late_game = [\<lparr>suit = ''Hearts'', rank = ''2'', cvalue = 2\<rparr>]"
    by (simp add: late_game_def)
  then have a': "deck late_game \<noteq> []" by simp
  have b: "deck empty_deck = []" by (simp add: empty_deck_def)
  note t = draw_and_reveal [of "deck late_game" empty_deck]
  from t [THEN conjunct1, THEN mp, OF a'] a
  have c: "draw (deck late_game) = (Some \<lparr>suit = ''Hearts'', rank = ''2'', cvalue = 2\<rparr>, [])"
    by simp
  from t [THEN conjunct2, THEN conjunct1] b
  have d: "draw (deck empty_deck) = (None, [])" by simp
  from t [THEN conjunct2, THEN conjunct2, THEN conjunct2, THEN mp, OF b]
  have e: "reveal empty_deck = empty_deck"
    and f: "play_round empty_deck
              = bind_r (play_cards empty_deck) (\<lambda>g'. Some (bind_e (redeal g') show_score))"
    by blast+
  from f empty_deck_round
  have g: "bind_r (play_cards empty_deck) (\<lambda>g'. Some (bind_e (redeal g') show_score))
             = Some (Inr empty_deck_end)" by simp
  from a b c d e g empty_deck_round show ?thesis by blast
qed

subsection \<open>The summary\<close>

text \<open>
  C1, as the code has it. The summary prints the banner, the line of the final scores and
  one more line. When one score is 0 and the other is 16 that line names the player whose
  score is 0 as the one who shot the moon, and gives the result as 17-16, the 16 being the
  score of the other player: with 16 for the first player and 0 for the second it reads
  \<open>p2 shot the moon and wins 17-16!\<close>.
\<close>

theorem game_over_moon:
  assumes "score g (name (p1 g)) = Some s1" and "score g (name (p2 g)) = Some s2"
  shows "game_over g =
           Inr (g\<lparr>tty := print (verdict (name (p1 g)) (name (p2 g)) s1 s2)
                  (print (''Final Score '' @ arrow @ '' '' @ name (p1 g) @ '': '' @ str_int s1
                            @ '' | '' @ name (p2 g) @ '': '' @ str_int s2)
                     (print ''=== GAME OVER ==='' (tty g)))\<rparr>)
         \<and> (s1 = 16 \<and> s2 = 0 \<longrightarrow>
              verdict (name (p1 g)) (name (p2 g)) s1 s2
                = name (p2 g) @ '' shot the moon and wins 17-16!'')
         \<and> (s1 = 0 \<and> s2 = 16 \<longrightarrow>
              verdict (name (p1 g)) (name (p2 g)) s1 s2
                = name (p1 g) @ '' shot the moon and wins 17-16!'')"
  using assms
  by (simp add: game_over_def getitem_def bind_e_def verdict_def str_int_def Let_def)

theorem game_over_moon_witness:
  "score moon (name (p1 moon)) = Some 16 \<and> score moon (name (p2 moon)) = Some 0
   \<and> name (p1 moon) = ''Ann'' \<and> name (p2 moon) = ''Bob''
   \<and> verdict (name (p1 moon)) (name (p2 moon)) 16 0 = ''Bob shot the moon and wins 17-16!''
   \<and> game_over moon =
       Inr (moon\<lparr>tty := print ''Bob shot the moon and wins 17-16!''
              (print (''Final Score '' @ arrow @ '' Ann: 16 | Bob: 0'')
                 (print ''=== GAME OVER ==='' (tty moon)))\<rparr>)"
proof -
  have h: "score moon (name (p1 moon)) = Some 16" "score moon (name (p2 moon)) = Some 0"
    and n: "name (p1 moon) = ''Ann''" "name (p2 moon) = ''Bob''"
    by (simp_all add: moon_def)
  have s: "str_int 16 = ''16''" "str_int 0 = ''0''" by (simp_all add: str_int_def)
  from game_over_moon [OF h, THEN conjunct2, THEN conjunct1] n
  have v: "verdict (name (p1 moon)) (name (p2 moon)) 16 0 = ''Bob shot the moon and wins 17-16!''"
    by simp
  from game_over_moon [OF h, THEN conjunct1] v n s
  have "game_over moon =
       Inr (moon\<lparr>tty := print ''Bob shot the moon and wins 17-16!''
              (print (''Final Score '' @ arrow @ '' Ann: 16 | Bob: 0'')
                 (print ''=== GAME OVER ==='' (tty moon)))\<rparr>)"
    by simp
  with h n v show ?thesis by blast
qed

text \<open>
  C1, as the specification words it, fails. At the end of a game in which the first player,
  Ann, has won all sixteen tricks, the last line of the summary names Bob, whose score is
  0, and reads 17-16: it is not the line \<open>Ann shot the moon and wins 17-0!\<close>.
\<close>

theorem verdict_moon_counterexample:
  "score moon (name (p1 moon)) = Some 16 \<and> score moon (name (p2 moon)) = Some 0
   \<and> game_over moon = Inr moon_end
   \<and> stdout (tty moon_end) =
       ''=== GAME OVER ==='' @ [CHR 0x0A] @ ''Final Score '' @ arrow @ '' Ann: 16 | Bob: 0''
         @ [CHR 0x0A] @ ''Bob shot the moon and wins 17-16!'' @ [CHR 0x0A]
   \<and> verdict ''Ann'' ''Bob'' 16 0 = ''Bob shot the moon and wins 17-16!''
   \<and> verdict ''Ann'' ''Bob'' 16 0 \<noteq> ''Ann shot the moon and wins 17-0!''"
proof -
  have "score moon (name (p1 moon)) = Some 16" "score moon (name (p2 moon)) = Some 0"
    by (simp_all add: moon_def)
  moreover have "stdout (tty moon_end) =
       ''=== GAME OVER ==='' @ [CHR 0x0A] @ ''Final Score '' @ arrow @ '' Ann: 16 | Bob: 0''
         @ [CHR 0x0A] @ ''Bob shot the moon and wins 17-16!'' @ [CHR 0x0A]"
    by (simp add: moon_end_def arrow_def)
  moreover have "verdict ''Ann'' ''Bob'' 16 0 = ''Bob shot the moon and wins 17-16!''"
    by (simp add: verdict_def str_int_def)
  ultimately show ?thesis using moon_over by simp
qed

end
